theory Spec2Isabelle
  imports
    Complex_Main
    "HOL-Library.Char_ord"
    "HOL-Library.List_Lexorder"
    "HOL-Library.Product_Lexorder"
    "HOL-Library.Code_Target_Nat"
begin

section \<open>Data model of the COVID-19 ETL pipeline\<close>

text \<open>
  The pipeline has three stages, \<^verbatim>\<open>extract_data\<close> (scripts/extract.py),
  \<^verbatim>\<open>transform_data\<close> (scripts/transform.py) and \<^verbatim>\<open>load_data\<close>
  (scripts/load.py), sequenced by \<^verbatim>\<open>run_pipeline\<close> (main.py).

  Modelling conventions.
  \<^item> A data frame is the list of its rows, in frame order; each frame shape of the
    source is a record whose fields are the frame's columns.
  \<^item> \<^verbatim>\<open>Province/State\<close> is \<open>string option\<close> (\<open>None\<close> is pandas' NaN for an empty
    field) until \<^verbatim>\<open>fillna\<close> replaces it; \<^verbatim>\<open>Country/Region\<close> is a string.
  \<^item> The cells of the date columns are integers (cumulative head counts); the model
    covers complete tables, and computes on mathematical integers.
  \<^item> \<^verbatim>\<open>Lat\<close> and \<^verbatim>\<open>Long\<close> are only carried through, never computed on.
  \<^item> A float that the source computes by division is an \<open>fnum\<close>: a rational number or the
    non-finite outcome (inf or NaN) that pandas gives for a division by zero.
  \<^item> A stage is a function of what it reads (files, responses, clock, store) to its return
    value and to what it leaves behind; an exception is a value of the result. Errors of
    the disk are not modelled.
\<close>

datatype category = Confirmed | Deaths | Recovered

definition category_name :: "category \<Rightarrow> string" where
  "category_name c = (case c of Confirmed \<Rightarrow> ''confirmed'' | Deaths \<Rightarrow> ''deaths''
                      | Recovered \<Rightarrow> ''recovered'')"

text \<open>The loops of both stages run over confirmed, deaths, recovered in this order.\<close>

definition categories :: "category list" where
  "categories = [Confirmed, Deaths, Recovered]"

type_synonym coord = "rat option"

text \<open>A calendar date as (year, month, day); the lexicographic order is the chronological one.\<close>

type_synonym date = "nat \<times> nat \<times> nat"

text \<open>The four identity columns of a raw (wide) table.\<close>

record id_row =
  w_province_state :: "string option"
  w_country_region :: string
  w_lat :: coord
  w_long :: coord

text \<open>
  A wide table as pandas holds it, by columns: the identity columns (one \<open>id_row\<close> per
  table row) and, for every other column, its header and its cells.
\<close>

record wide_table =
  ids :: "id_row list"
  value_cols :: "(string \<times> int list) list"

text \<open>A data frame is rectangular: every column has one cell per row.\<close>

definition wf_wide :: "wide_table \<Rightarrow> bool" where
  "wf_wide wt = list_all (\<lambda>col. length (snd col) = length (ids wt)) (value_cols wt)"

text \<open>One row of a long table: identity columns, \<^verbatim>\<open>date\<close>, and the value column.\<close>

record 'd long_row =
  l_province_state :: "string option"
  l_country_region :: string
  l_lat :: coord
  l_long :: coord
  l_date :: 'd
  l_value :: int

text \<open>A long frame: the name of its value column, and its rows.\<close>

record 'd long_frame =
  value_name :: string
  long_rows :: "'d long_row list"

datatype fnum = Fin rat | NotFinite

text \<open>A row of \<^verbatim>\<open>transformed_data\<close> after the merges, before \<^verbatim>\<open>fillna\<close>.\<close>

record merged_row =
  m_province_state :: "string option"
  m_country_region :: string
  m_lat :: coord
  m_long :: coord
  m_date :: date
  m_confirmed :: int
  m_deaths :: "int option"
  m_recovered :: "int option"

text \<open>A row of \<^verbatim>\<open>covid_data_transformed.csv\<close> (the Observation of the specification).\<close>

record obs =
  province_state :: string
  country_region :: string
  lat :: coord
  long :: coord
  date :: date
  confirmed :: int
  deaths :: int
  recovered :: int
  active :: int
  mortality_rate :: fnum

text \<open>A row of \<^verbatim>\<open>covid_data_by_country.csv\<close>.\<close>

record country_row =
  c_country_region :: string
  c_date :: date
  c_confirmed :: int
  c_deaths :: int
  c_recovered :: int
  c_active :: int
  c_mortality_rate :: fnum

text \<open>A row of \<^verbatim>\<open>covid_daily_changes.csv\<close>: an observation and the three new columns.\<close>

record daily_row = obs +
  new_confirmed :: int
  new_deaths :: int
  new_recovered :: int

datatype py_error =
    EmptyDataError     \<comment> \<open>\<^verbatim>\<open>pd.read_csv\<close> on a file of no bytes\<close>
  | ParserError        \<comment> \<open>\<^verbatim>\<open>pd.read_csv\<close> on bytes that are no table\<close>
  | KeyError           \<comment> \<open>\<^verbatim>\<open>pd.melt\<close> on a table without the identity columns\<close>
  | ValueError         \<comment> \<open>\<^verbatim>\<open>pd.to_datetime\<close> on a header that is no date\<close>

section \<open>Reshape: \<^verbatim>\<open>pd.melt\<close> and \<^verbatim>\<open>pd.to_datetime\<close> (transform.py, lines 55-64)\<close>

text \<open>
  \<^verbatim>\<open>pd.melt(df, id_vars=id_vars, var_name='date', value_name=category)\<close>: every column
  that is no identity column is a value column; the result stacks the value columns in
  column order, each with all the rows of the table in row order.
\<close>

definition melt_row :: "'d \<Rightarrow> id_row \<times> int \<Rightarrow> 'd long_row" where
  "melt_row d p =
     \<lparr>l_province_state = w_province_state (fst p), l_country_region = w_country_region (fst p),
      l_lat = w_lat (fst p), l_long = w_long (fst p), l_date = d, l_value = snd p\<rparr>"

definition melt :: "wide_table \<Rightarrow> string \<Rightarrow> string long_frame" where
  "melt df vname =
     \<lparr>value_name = vname,
      long_rows = concat (map (\<lambda>col. map (melt_row (fst col)) (zip (ids df) (snd col)))
                              (value_cols df))\<rparr>"

subsection \<open>The format \<^verbatim>\<open>%m/%d/%y\<close>\<close>

definition is_digit :: "char \<Rightarrow> bool" where
  "is_digit c = (CHR ''0'' \<le> c \<and> c \<le> CHR ''9'')"

definition digit_val :: "char \<Rightarrow> nat" where
  "digit_val c = of_char c - of_char CHR ''0''"

fun split_on :: "char \<Rightarrow> string \<Rightarrow> string list" where
  "split_on sep [] = [[]]"
| "split_on sep (c # cs) =
     (if c = sep then [] # split_on sep cs
      else (case split_on sep cs of [] \<Rightarrow> [[c]] | p # ps \<Rightarrow> (c # p) # ps))"

text \<open>\<^verbatim>\<open>%m\<close> is \<^verbatim>\<open>1[0-2]|0[1-9]|[1-9]\<close>.\<close>

definition parse_month :: "string \<Rightarrow> nat option" where
  "parse_month s =
     (case s of
        [a] \<Rightarrow> if is_digit a \<and> 1 \<le> digit_val a then Some (digit_val a) else None
      | [a, b] \<Rightarrow>
          if is_digit a \<and> is_digit b \<and> 1 \<le> 10 * digit_val a + digit_val b
             \<and> 10 * digit_val a + digit_val b \<le> 12
          then Some (10 * digit_val a + digit_val b) else None
      | _ \<Rightarrow> None)"

text \<open>\<^verbatim>\<open>%d\<close> is \<^verbatim>\<open>3[0-1]|[1-2]\d|0[1-9]|[1-9]| [1-9]\<close>.\<close>

definition parse_day :: "string \<Rightarrow> nat option" where
  "parse_day s =
     (case s of
        [a] \<Rightarrow> if is_digit a \<and> 1 \<le> digit_val a then Some (digit_val a) else None
      | [a, b] \<Rightarrow>
          if a = CHR '' '' \<and> is_digit b \<and> 1 \<le> digit_val b then Some (digit_val b)
          else if is_digit a \<and> is_digit b \<and> 1 \<le> 10 * digit_val a + digit_val b
             \<and> 10 * digit_val a + digit_val b \<le> 31
          then Some (10 * digit_val a + digit_val b) else None
      | _ \<Rightarrow> None)"

text \<open>\<^verbatim>\<open>%y\<close> is \<^verbatim>\<open>\d\d\<close>; 69-99 are 1969-1999 and 00-68 are 2000-2068.\<close>

definition parse_year2 :: "string \<Rightarrow> nat option" where
  "parse_year2 s =
     (case s of
        [a, b] \<Rightarrow>
          if is_digit a \<and> is_digit b
          then (let yy = 10 * digit_val a + digit_val b
                in Some (if yy < 69 then 2000 + yy else 1900 + yy))
          else None
      | _ \<Rightarrow> None)"

definition days_in_month :: "nat \<Rightarrow> nat \<Rightarrow> nat" where
  "days_in_month y m =
     (if m = 2 then (if y mod 4 = 0 \<and> (y mod 100 \<noteq> 0 \<or> y mod 400 = 0) then 29 else 28)
      else if m = 4 \<or> m = 6 \<or> m = 9 \<or> m = 11 then 30 else 31)"

text \<open>One header; the whole string has to match, and the day has to exist in the month.\<close>

definition strptime_mdy :: "string \<Rightarrow> date option" where
  "strptime_mdy s =
     (case split_on CHR ''/'' s of
        [ms, ds, ys] \<Rightarrow>
          (case (parse_month ms, parse_day ds, parse_year2 ys) of
             (Some m, Some d, Some y) \<Rightarrow>
               if d \<le> days_in_month y m then Some (y, m, d) else None
           | _ \<Rightarrow> None)
      | _ \<Rightarrow> None)"

text \<open>
  \<^verbatim>\<open>df_long['date'] = pd.to_datetime(df_long['date'], format='%m/%d/%y')\<close>: converts the
  column, or raises at the first entry that does not parse.
\<close>

fun to_datetime :: "string long_row list \<Rightarrow> py_error + date long_row list" where
  "to_datetime [] = Inr []"
| "to_datetime (r # rs) =
     (case strptime_mdy (l_date r) of
        None \<Rightarrow> Inl ValueError
      | Some d \<Rightarrow>
          (case to_datetime rs of
             Inl e \<Rightarrow> Inl e
           | Inr rs' \<Rightarrow>
               Inr (\<lparr>l_province_state = l_province_state r, l_country_region = l_country_region r,
                     l_lat = l_lat r, l_long = l_long r, l_date = d, l_value = l_value r\<rparr> # rs')))"

text \<open>The body of the loop of step 1 after \<^verbatim>\<open>pd.read_csv\<close>, for one category.\<close>

definition reshape :: "category \<Rightarrow> wide_table \<Rightarrow> py_error + date long_frame" where
  "reshape cat df =
     (let df_long = melt df (category_name cat)
      in case to_datetime (long_rows df_long) of
           Inl e \<Rightarrow> Inl e
         | Inr rows \<Rightarrow> Inr \<lparr>value_name = value_name df_long, long_rows = rows\<rparr>)"

section \<open>Join and reconcile (transform.py, lines 72-114)\<close>

text \<open>The join key \<^verbatim>\<open>on=['Province/State', 'Country/Region', 'date']\<close>.\<close>

definition long_key :: "date long_row \<Rightarrow> string option \<times> string \<times> date" where
  "long_key r = (l_province_state r, l_country_region r, l_date r)"

text \<open>
  \<^verbatim>\<open>pd.merge(left, right, on=..., how='left')\<close>: the rows of the left frame in their order;
  a left row is paired with every right row of the same key, in the right frame's order,
  and with a missing value when there is none. pandas takes two missing key entries for
  equal, as \<open>None = None\<close> does.
\<close>

definition left_merge :: "('a \<Rightarrow> 'k) \<Rightarrow> ('b \<Rightarrow> 'k) \<Rightarrow> 'a list \<Rightarrow> 'b list \<Rightarrow> ('a \<times> 'b option) list" where
  "left_merge kl kr left right =
     concat (map (\<lambda>l. case filter (\<lambda>r. kr r = kl l) right of
                         [] \<Rightarrow> [(l, None)]
                       | ms \<Rightarrow> map (\<lambda>r. (l, Some r)) ms) left)"

text \<open>
  Lines 79-87: the right frame is cut down to the key columns and \<^verbatim>\<open>deaths\<close>; without a
  deaths dataset the column is the constant 0.
\<close>

definition merge_deaths ::
  "date long_row list \<Rightarrow> date long_frame option \<Rightarrow> (date long_row \<times> int option) list" where
  "merge_deaths transformed_data ds =
     (case ds of
        Some f \<Rightarrow> map (\<lambda>p. (fst p, map_option l_value (snd p)))
                      (left_merge long_key long_key transformed_data (long_rows f))
      | None \<Rightarrow> map (\<lambda>l. (l, Some 0)) transformed_data)"

text \<open>Lines 90-98, the same for \<^verbatim>\<open>recovered\<close>, on the frame that the first merge gave.\<close>

definition mk_merged :: "date long_row \<times> int option \<Rightarrow> int option \<Rightarrow> merged_row" where
  "mk_merged p rc =
     \<lparr>m_province_state = l_province_state (fst p), m_country_region = l_country_region (fst p),
      m_lat = l_lat (fst p), m_long = l_long (fst p), m_date = l_date (fst p),
      m_confirmed = l_value (fst p), m_deaths = snd p, m_recovered = rc\<rparr>"

definition merge_recovered ::
  "(date long_row \<times> int option) list \<Rightarrow> date long_frame option \<Rightarrow> merged_row list" where
  "merge_recovered transformed_data ds =
     (case ds of
        Some f \<Rightarrow> map (\<lambda>p. mk_merged (fst p) (map_option l_value (snd p)))
                      (left_merge (\<lambda>p. long_key (fst p)) long_key transformed_data (long_rows f))
      | None \<Rightarrow> map (\<lambda>p. mk_merged p (Some 0)) transformed_data)"

definition fillna :: "'a \<Rightarrow> 'a option \<Rightarrow> 'a" where
  "fillna d v = (case v of None \<Rightarrow> d | Some x \<Rightarrow> x)"

text \<open>
  Series division and multiplication of pandas: dividing by zero raises nothing and gives
  inf or NaN.
\<close>

definition truediv :: "int \<Rightarrow> int \<Rightarrow> fnum" where
  "truediv a b = (if b = 0 then NotFinite else Fin (of_int a / of_int b))"

definition fmul :: "fnum \<Rightarrow> rat \<Rightarrow> fnum" where
  "fmul x k = (case x of Fin q \<Rightarrow> Fin (q * k) | NotFinite \<Rightarrow> NotFinite)"

text \<open>\<^verbatim>\<open>np.where(cond, x, y)\<close>, for one row: both \<open>x\<close> and \<open>y\<close> have been computed.\<close>

definition np_where :: "bool \<Rightarrow> 'a \<Rightarrow> 'a \<Rightarrow> 'a" where
  "np_where c x y = (if c then x else y)"

text \<open>
  Lines 101-114 on one row: \<^verbatim>\<open>fillna\<close> of deaths, recovered and Province/State, then the
  calculated fields \<^verbatim>\<open>active\<close> and \<^verbatim>\<open>mortality_rate\<close>.
\<close>

definition calc_row :: "merged_row \<Rightarrow> obs" where
  "calc_row m =
     (let d = fillna 0 (m_deaths m);
          r = fillna 0 (m_recovered m);
          p = fillna ''Unknown'' (m_province_state m);
          c = m_confirmed m
      in \<lparr>province_state = p, country_region = m_country_region m,
          lat = m_lat m, long = m_long m, date = m_date m,
          confirmed = c, deaths = d, recovered = r,
          active = c - d - r,
          mortality_rate = np_where (0 < c) (fmul (truediv d c) 100) (Fin 0)\<rparr>)"

text \<open>Steps 2 and 3, from the long frame of confirmed and the optional two others.\<close>

definition reconcile ::
  "date long_frame \<Rightarrow> date long_frame option \<Rightarrow> date long_frame option \<Rightarrow> obs list" where
  "reconcile cf df rf =
     map calc_row (merge_recovered (merge_deaths (long_rows cf) df) rf)"

section \<open>Country-level aggregation (transform.py, lines 123-135)\<close>

definition country_key :: "'a obs_scheme \<Rightarrow> string \<times> date" where
  "country_key r = (country_region r, date r)"

text \<open>
  \<^verbatim>\<open>groupby(['Country/Region', 'date']).agg({...: 'sum'}).reset_index()\<close>: one row per
  distinct key, the keys in ascending order, each column the sum over the group; then
  the mortality rate of the sums.
\<close>

definition agg_row :: "obs list \<Rightarrow> string \<times> date \<Rightarrow> country_row" where
  "agg_row td k =
     (let g = filter (\<lambda>r. country_key r = k) td;
          c = sum_list (map confirmed g);
          d = sum_list (map deaths g)
      in \<lparr>c_country_region = fst k, c_date = snd k,
          c_confirmed = c, c_deaths = d,
          c_recovered = sum_list (map recovered g),
          c_active = sum_list (map active g),
          c_mortality_rate = np_where (0 < c) (fmul (truediv d c) 100) (Fin 0)\<rparr>)"

definition country_data :: "obs list \<Rightarrow> country_row list" where
  "country_data td = map (agg_row td) (sort (remdups (map country_key td)))"

section \<open>Daily changes (transform.py, lines 144-151)\<close>

definition sort_cols :: "'a obs_scheme \<Rightarrow> string \<times> string \<times> date" where
  "sort_cols r = (country_region r, province_state r, date r)"

text \<open>\<^verbatim>\<open>sort_values(['Country/Region', 'Province/State', 'date'])\<close>, a stable sort.\<close>

definition sort_values :: "obs list \<Rightarrow> obs list" where
  "sort_values td = sort_key sort_cols td"

definition group_cols :: "'a obs_scheme \<Rightarrow> string \<times> string" where
  "group_cols r = (country_region r, province_state r)"

text \<open>
  \<^verbatim>\<open>groupby(['Country/Region', 'Province/State'])[col].diff()\<close>: every row gets the
  difference to the row before it in its group, in frame order, and a missing value when
  it is the first of its group. \<open>seen\<close> holds the last value of each group so far.
\<close>

fun groupby_diff :: "(obs \<Rightarrow> int) \<Rightarrow> (string \<times> string \<rightharpoonup> int) \<Rightarrow> obs list \<Rightarrow> int option list" where
  "groupby_diff col seen [] = []"
| "groupby_diff col seen (r # rs) =
     map_option (\<lambda>p. col r - p) (seen (group_cols r))
       # groupby_diff col (seen(group_cols r \<mapsto> col r)) rs"

definition clip_lower :: "int \<Rightarrow> int \<Rightarrow> int" where
  "clip_lower lo v = max lo v"

text \<open>Lines 149 and 151 for one column: \<^verbatim>\<open>.diff().fillna(0)\<close>, then \<^verbatim>\<open>.clip(lower=0)\<close>.\<close>

definition new_col :: "(obs \<Rightarrow> int) \<Rightarrow> obs list \<Rightarrow> int list" where
  "new_col col td = map (clip_lower 0) (map (fillna 0) (groupby_diff col Map.empty td))"

definition add_new :: "obs \<times> int \<times> int \<times> int \<Rightarrow> daily_row" where
  "add_new q = obs.extend (fst q)
     \<lparr>new_confirmed = fst (snd q), new_deaths = fst (snd (snd q)),
      new_recovered = snd (snd (snd q))\<rparr>"

text \<open>The frame \<^verbatim>\<open>daily_data\<close>: the sorted frame and its three new columns.\<close>

definition daily_data :: "obs list \<Rightarrow> daily_row list" where
  "daily_data td =
     (let s = sort_values td
      in map add_new
           (zip s (zip (new_col confirmed s) (zip (new_col deaths s) (new_col recovered s)))))"

section \<open>Files, configuration and return values\<close>

text \<open>
  What \<^verbatim>\<open>pd.read_csv\<close> makes of a file's bytes: a file of no bytes and bytes that are no
  table make it raise; a table either has the four identity columns (a wide table) or
  lacks one of them.
\<close>

datatype data_frame = OtherTable | Wide wide_table

datatype raw_body = NoBytes | Garbage | Csv data_frame

fun read_csv :: "raw_body \<Rightarrow> py_error + data_frame" where
  "read_csv NoBytes = Inl EmptyDataError"
| "read_csv Garbage = Inl ParserError"
| "read_csv (Csv df) = Inr df"

text \<open>The three processed files hold frames of three shapes.\<close>

datatype csv_data =
    FullRows "obs list"
  | CountryRows "country_row list"
  | DailyRows "daily_row list"

definition row_count :: "csv_data \<Rightarrow> nat" where
  "row_count d = (case d of FullRows rs \<Rightarrow> length rs | CountryRows rs \<Rightarrow> length rs
                  | DailyRows rs \<Rightarrow> length rs)"

type_synonym timestamp = nat

text \<open>\<^verbatim>\<open>transformation_metadata.txt\<close>: timestamp, record count, countries, date range.\<close>

record transform_meta =
  tm_timestamp :: timestamp
  tm_total_records :: nat
  tm_countries :: nat
  tm_date_range :: "(date \<times> date) option"

text \<open>
  The files of the pipeline, in the directories that the configuration names: the raw
  file of each category, \<^verbatim>\<open>extraction_metadata.txt\<close> (timestamp, successful downloads,
  number of URLs), the processed files by name, \<^verbatim>\<open>transformation_metadata.txt\<close>, and
  the lines of \<^verbatim>\<open>pipeline_metadata.txt\<close> (timestamp, success).
\<close>

record files =
  raw_csv :: "category \<Rightarrow> raw_body option"
  extraction_metadata :: "(timestamp \<times> nat \<times> nat) option"
  processed_csv :: "string \<Rightarrow> csv_data option"
  transformation_metadata :: "transform_meta option"
  pipeline_metadata :: "(timestamp \<times> bool) list"

text \<open>
  The configuration dictionary. The one of the DAG has \<^verbatim>\<open>postgres_conn_id\<close>, the one of
  the \<^verbatim>\<open>scripts\<close> package has not.
\<close>

record config =
  raw_data_path :: string
  processed_data_path :: string
  postgres_conn_id :: "string option"

text \<open>
  Every stage starts with \<^verbatim>\<open>if config is None: from scripts import CONFIG\<close>;
  \<open>scripts_config\<close> is what that import gives, \<open>None\<close> when it raises ImportError (the
  stage then returns False).
\<close>

definition resolve_config :: "config option \<Rightarrow> config option \<Rightarrow> config option" where
  "resolve_config cfg scripts_config = (case cfg of Some c \<Rightarrow> Some c | None \<Rightarrow> scripts_config)"

text \<open>What a Python function returns: a function that ends without \<^verbatim>\<open>return\<close> gives None.\<close>

datatype pyval = PyNone | PyBool bool

text \<open>Truth value testing, as in \<^verbatim>\<open>if not extract_success\<close>.\<close>

definition truthy :: "pyval \<Rightarrow> bool" where
  "truthy v = (case v of PyNone \<Rightarrow> False | PyBool b \<Rightarrow> b)"

section \<open>The extract stage (extract.py, \<^verbatim>\<open>extract_data\<close>)\<close>

text \<open>
  \<^verbatim>\<open>requests.get(url, timeout=30)\<close> followed by \<^verbatim>\<open>raise_for_status()\<close>: a
  RequestException, or the bytes of the response.
\<close>

datatype response = RequestFailed | Body raw_body

text \<open>
  One round of the loop (lines 46-74), on the files and \<^verbatim>\<open>successful_downloads\<close>. The
  bytes are written before they are verified; an empty file is logged, and an exception
  of \<^verbatim>\<open>pd.read_csv\<close> is caught and logged: both leave the file where it is.
\<close>

definition download :: "(category \<Rightarrow> response) \<Rightarrow> files \<times> nat \<Rightarrow> category \<Rightarrow> files \<times> nat" where
  "download responses acc cat =
     (case responses cat of
        RequestFailed \<Rightarrow> acc
      | Body content \<Rightarrow>
          (let fs = (fst acc)\<lparr>raw_csv := (raw_csv (fst acc))(cat \<mapsto> content)\<rparr>
           in if content \<noteq> NoBytes
              then (case read_csv content of
                      Inr df \<Rightarrow> (fs, snd acc + 1)
                    | Inl e \<Rightarrow> (fs, snd acc))
              else (fs, snd acc)))"

text \<open>
  \<^verbatim>\<open>extract_data\<close>: returns False when no configuration can be had; otherwise it runs the
  loop, writes the metadata file, and ends without a \<^verbatim>\<open>return\<close> statement.
\<close>

definition extract_data ::
  "config option \<Rightarrow> config option \<Rightarrow> (category \<Rightarrow> response) \<Rightarrow> timestamp \<Rightarrow> files \<Rightarrow> pyval \<times> files" where
  "extract_data cfg scripts_config responses now fs =
     (case resolve_config cfg scripts_config of
        None \<Rightarrow> (PyBool False, fs)
      | Some c \<Rightarrow>
          (let acc = foldl (download responses) (fs, 0) categories
           in (PyNone,
               (fst acc)\<lparr>extraction_metadata := Some (now, snd acc, length categories)\<rparr>)))"

section \<open>The transform stage (transform.py, \<^verbatim>\<open>transform_data\<close>)\<close>

text \<open>Lines 52-64 for one raw file that exists.\<close>

definition read_category :: "raw_body \<Rightarrow> category \<Rightarrow> py_error + date long_frame" where
  "read_category content cat =
     (case read_csv content of
        Inl e \<Rightarrow> Inl e
      | Inr df \<Rightarrow> (case df of OtherTable \<Rightarrow> Inl KeyError | Wide wt \<Rightarrow> reshape cat wt))"

text \<open>
  The loop of step 1 (lines 42-68): a raw file that does not exist is skipped
  (\<^verbatim>\<open>continue\<close>); an exception leaves the loop.
\<close>

fun read_datasets ::
  "(category \<Rightarrow> raw_body option) \<Rightarrow> category list \<Rightarrow> (category \<rightharpoonup> date long_frame)
   \<Rightarrow> py_error + (category \<rightharpoonup> date long_frame)" where
  "read_datasets raw [] datasets = Inr datasets"
| "read_datasets raw (cat # cats) datasets =
     (case raw cat of
        None \<Rightarrow> read_datasets raw cats datasets
      | Some content \<Rightarrow>
          (case read_category content cat of
             Inl e \<Rightarrow> Inl e
           | Inr df_long \<Rightarrow> read_datasets raw cats (datasets(cat \<mapsto> df_long))))"

text \<open>\<^verbatim>\<open>min()\<close> and \<^verbatim>\<open>max()\<close> of the date column; none on an empty frame.\<close>

definition date_range :: "date list \<Rightarrow> (date \<times> date) option" where
  "date_range ds = (case ds of [] \<Rightarrow> None | d # rest \<Rightarrow> Some (fold min rest d, fold max rest d))"

text \<open>
  \<^verbatim>\<open>transform_data\<close>. Every exception is caught by the handler of lines 168-170, which
  returns False; so does a missing confirmed dataset. No file is written before the
  datasets are read and merged.
\<close>

definition transform_data ::
  "config option \<Rightarrow> config option \<Rightarrow> timestamp \<Rightarrow> files \<Rightarrow> bool \<times> files" where
  "transform_data cfg scripts_config now fs =
     (case resolve_config cfg scripts_config of
        None \<Rightarrow> (False, fs)
      | Some c \<Rightarrow>
          (case read_datasets (raw_csv fs) categories Map.empty of
             Inl e \<Rightarrow> (False, fs)
           | Inr datasets \<Rightarrow>
               (case datasets Confirmed of
                  None \<Rightarrow> (False, fs)
                | Some cf \<Rightarrow>
                    (let transformed_data = reconcile cf (datasets Deaths) (datasets Recovered);
                         sorted_data = sort_values transformed_data
                     in (True,
                         fs\<lparr>processed_csv := (processed_csv fs)
                              (''covid_data_transformed.csv'' \<mapsto> FullRows transformed_data,
                               ''covid_data_by_country.csv'' \<mapsto>
                                  CountryRows (country_data transformed_data),
                               ''covid_daily_changes.csv'' \<mapsto>
                                  DailyRows (daily_data transformed_data)),
                            transformation_metadata := Some
                              \<lparr>tm_timestamp = now,
                               tm_total_records = length sorted_data,
                               tm_countries = length (remdups (map country_region sorted_data)),
                               tm_date_range = date_range (map date sorted_data)\<rparr>\<rparr>)))))"

section \<open>The load stage (load.py, \<^verbatim>\<open>load_data\<close>)\<close>

text \<open>
  The store as every connection sees it (committed state): relations by name, views and
  indexes by name.
\<close>

record audit_row =
  operation :: string
  logged_at :: timestamp
  total_rows_loaded :: nat

datatype relation = DataTable csv_data | AuditTable "audit_row list"

record store =
  relations :: "string \<Rightarrow> relation option"
  views :: "string set"
  indexes :: "string set"

text \<open>
  \<^verbatim>\<open>load_data\<close> talks to the store through three handles: the cursor of
  \<^verbatim>\<open>conn = pg_hook.get_conn()\<close> with autocommit off (only \<^verbatim>\<open>create_database_schema\<close>
  uses it), \<^verbatim>\<open>pg_hook.run\<close>, \<^verbatim>\<open>get_records\<close> and \<^verbatim>\<open>get_first\<close>, and the SQLAlchemy
  engine behind \<^verbatim>\<open>df.to_sql\<close>. A call of the hook opens a connection of its own and
  commits before it returns, and \<^verbatim>\<open>to_sql\<close> runs in a transaction of the engine: their
  effects are in the store at once, and they see nothing that \<^verbatim>\<open>conn\<close> has not
  committed. The state of a run: the store, the relations that the open transaction of
  \<^verbatim>\<open>conn\<close> has created, and \<^verbatim>\<open>rows_loaded\<close>.
\<close>

record load_state =
  db :: store
  pending :: "string list"
  rows_loaded :: nat

text \<open>The calls to the store; the environment says which of them raise.\<close>

datatype db_call =
    Connect
  | CreateSchema
  | GetEngine
  | DropTable string
  | ToSql string
  | CountRows string
  | CreateView string
  | CreateIndex string
  | TableExists string
  | InsertMetadata
  | CommitTx
  | RollbackTx
  | CloseConn

text \<open>
  How a step ends: done, with an exception, or blocked for good (a statement that waits
  for the open transaction of \<^verbatim>\<open>conn\<close>, which waits for the statement).
\<close>

datatype step_result = Done load_state | Failed load_state | Stuck load_state

definition and_then :: "step_result \<Rightarrow> (load_state \<Rightarrow> step_result) \<Rightarrow> step_result" where
  "and_then r f = (case r of Done s \<Rightarrow> f s | Failed s \<Rightarrow> Failed s | Stuck s \<Rightarrow> Stuck s)"

definition empty_relation :: "string \<Rightarrow> relation" where
  "empty_relation t =
     (if t = ''etl_metadata'' then AuditTable []
      else if t = ''full_data'' then DataTable (FullRows [])
      else if t = ''country_summary'' then DataTable (CountryRows [])
      else DataTable (DailyRows []))"

text \<open>\<^verbatim>\<open>CREATE TABLE IF NOT EXISTS\<close> on the cursor of \<^verbatim>\<open>conn\<close>: not committed.\<close>

definition create_table_if_not_exists :: "string \<Rightarrow> load_state \<Rightarrow> load_state" where
  "create_table_if_not_exists t s =
     (if relations (db s) t = None \<and> t \<notin> set (pending s)
      then s\<lparr>pending := pending s @ [t]\<rparr> else s)"

definition create_database_schema :: "(db_call \<Rightarrow> bool) \<Rightarrow> load_state \<Rightarrow> step_result" where
  "create_database_schema raises s =
     (if raises CreateSchema then Failed s
      else Done (create_table_if_not_exists ''daily_changes''
                  (create_table_if_not_exists ''country_summary''
                    (create_table_if_not_exists ''full_data''
                      (create_table_if_not_exists ''etl_metadata'' s)))))"

text \<open>The views and the indexes that go when a table is dropped with \<^verbatim>\<open>CASCADE\<close>.\<close>

definition views_on :: "string \<Rightarrow> string set" where
  "views_on t =
     (if t = ''country_summary'' then {''vw_latest_global_summary'', ''vw_top_countries''}
      else if t = ''daily_changes'' then {''vw_global_daily''}
      else {})"

definition indexes_on :: "string \<Rightarrow> string set" where
  "indexes_on t =
     (if t = ''full_data'' then {''idx_full_country'', ''idx_full_date''}
      else if t = ''country_summary'' then {''idx_summary_date''}
      else if t = ''daily_changes'' then {''idx_changes_country'', ''idx_changes_date''}
      else {})"

text \<open>\<^verbatim>\<open>pg_hook.run("DROP TABLE IF EXISTS ... CASCADE")\<close> (line 93).\<close>

definition drop_table :: "(db_call \<Rightarrow> bool) \<Rightarrow> string \<Rightarrow> load_state \<Rightarrow> step_result" where
  "drop_table raises t s =
     (if raises (DropTable t) then Failed s
      else if relations (db s) t = None then Done s
      else Done (s\<lparr>db := (db s)\<lparr>relations := (relations (db s))(t := None),
                                 views := views (db s) - views_on t,
                                 indexes := indexes (db s) - indexes_on t\<rparr>\<rparr>))"

text \<open>
  \<^verbatim>\<open>df.to_sql(table_name, engine, if_exists='replace', index=False)\<close> (line 96): creates
  the table and inserts the rows in one transaction. Creating a relation that the open
  transaction of \<^verbatim>\<open>conn\<close> has created waits for that transaction to end.
\<close>

definition to_sql :: "(db_call \<Rightarrow> bool) \<Rightarrow> string \<Rightarrow> csv_data \<Rightarrow> load_state \<Rightarrow> step_result" where
  "to_sql raises t df s =
     (if raises (ToSql t) then Failed s
      else if t \<in> set (pending s) then Stuck s
      else Done (s\<lparr>db := (db s)\<lparr>relations := (relations (db s))(t \<mapsto> DataTable df),
                                 indexes := indexes (db s) - indexes_on t\<rparr>\<rparr>))"

text \<open>\<^verbatim>\<open>SELECT COUNT(*)\<close> and \<^verbatim>\<open>rows_loaded += count\<close> (lines 100-103).\<close>

definition count_rows :: "(db_call \<Rightarrow> bool) \<Rightarrow> string \<Rightarrow> load_state \<Rightarrow> step_result" where
  "count_rows raises t s =
     (if raises (CountRows t) then Failed s
      else (case relations (db s) t of
              Some (DataTable d) \<Rightarrow> Done (s\<lparr>rows_loaded := rows_loaded s + row_count d\<rparr>)
            | Some (AuditTable rs) \<Rightarrow> Done (s\<lparr>rows_loaded := rows_loaded s + length rs\<rparr>)
            | None \<Rightarrow> Failed s))"

definition files_to_load :: "(string \<times> string) list" where
  "files_to_load =
     [(''covid_data_transformed.csv'', ''full_data''),
      (''covid_data_by_country.csv'', ''country_summary''),
      (''covid_daily_changes.csv'', ''daily_changes'')]"

text \<open>One round of the loop of lines 63-103: a file that does not exist is skipped.\<close>

definition load_file ::
  "(db_call \<Rightarrow> bool) \<Rightarrow> (string \<Rightarrow> csv_data option) \<Rightarrow> string \<times> string \<Rightarrow> load_state \<Rightarrow> step_result" where
  "load_file raises processed entry s =
     (case processed (fst entry) of
        None \<Rightarrow> Done s
      | Some df \<Rightarrow>
          and_then (drop_table raises (snd entry) s) (\<lambda>s1.
          and_then (to_sql raises (snd entry) df s1) (\<lambda>s2.
          count_rows raises (snd entry) s2)))"

fun load_files ::
  "(db_call \<Rightarrow> bool) \<Rightarrow> (string \<Rightarrow> csv_data option) \<Rightarrow> (string \<times> string) list \<Rightarrow> load_state \<Rightarrow> step_result" where
  "load_files raises processed [] s = Done s"
| "load_files raises processed (entry # entries) s =
     and_then (load_file raises processed entry s) (load_files raises processed entries)"

text \<open>
  \<^verbatim>\<open>CREATE OR REPLACE VIEW v AS SELECT ... FROM t\<close> and
  \<^verbatim>\<open>CREATE INDEX IF NOT EXISTS i ON t(...)\<close> through the hook: an error when the store has
  no table \<open>t\<close>.
\<close>

definition create_view :: "(db_call \<Rightarrow> bool) \<Rightarrow> string \<Rightarrow> string \<Rightarrow> load_state \<Rightarrow> step_result" where
  "create_view raises v t s =
     (if raises (CreateView v) \<or> relations (db s) t = None then Failed s
      else Done (s\<lparr>db := (db s)\<lparr>views := insert v (views (db s))\<rparr>\<rparr>))"

definition create_index :: "(db_call \<Rightarrow> bool) \<Rightarrow> string \<Rightarrow> string \<Rightarrow> load_state \<Rightarrow> step_result" where
  "create_index raises i t s =
     (if raises (CreateIndex i) \<or> relations (db s) t = None then Failed s
      else Done (s\<lparr>db := (db s)\<lparr>indexes := insert i (indexes (db s))\<rparr>\<rparr>))"

definition create_analytical_views :: "(db_call \<Rightarrow> bool) \<Rightarrow> load_state \<Rightarrow> step_result" where
  "create_analytical_views raises s =
     and_then (create_view raises ''vw_latest_global_summary'' ''country_summary'' s) (\<lambda>s1.
     and_then (create_view raises ''vw_top_countries'' ''country_summary'' s1) (\<lambda>s2.
     create_view raises ''vw_global_daily'' ''daily_changes'' s2))"

definition create_indexes :: "(db_call \<Rightarrow> bool) \<Rightarrow> load_state \<Rightarrow> step_result" where
  "create_indexes raises s =
     and_then (create_index raises ''idx_full_country'' ''full_data'' s) (\<lambda>s1.
     and_then (create_index raises ''idx_full_date'' ''full_data'' s1) (\<lambda>s2.
     and_then (create_index raises ''idx_summary_date'' ''country_summary'' s2) (\<lambda>s3.
     and_then (create_index raises ''idx_changes_country'' ''daily_changes'' s3) (\<lambda>s4.
     create_index raises ''idx_changes_date'' ''daily_changes'' s4))))"

text \<open>\<^verbatim>\<open>check_if_table_exists\<close>: catches its exceptions and answers False then.\<close>

definition check_if_table_exists :: "(db_call \<Rightarrow> bool) \<Rightarrow> string \<Rightarrow> load_state \<Rightarrow> bool" where
  "check_if_table_exists raises t s =
     (if raises (TableExists t) then False else relations (db s) t \<noteq> None)"

text \<open>Lines 114-121: the audit row, through the hook, when the table is there.\<close>

definition insert_metadata :: "(db_call \<Rightarrow> bool) \<Rightarrow> timestamp \<Rightarrow> load_state \<Rightarrow> step_result" where
  "insert_metadata raises now s =
     (if check_if_table_exists raises ''etl_metadata'' s
      then (if raises InsertMetadata then Failed s
            else (case relations (db s) ''etl_metadata'' of
                    Some (AuditTable rs) \<Rightarrow>
                      Done (s\<lparr>db := (db s)\<lparr>relations := (relations (db s))
                        (''etl_metadata'' \<mapsto> AuditTable (rs @
                           [\<lparr>operation = ''load'', logged_at = now,
                             total_rows_loaded = rows_loaded s\<rparr>]))\<rparr>\<rparr>)
                  | _ \<Rightarrow> Failed s))
      else Done s)"

text \<open>Lines 47-121, after the connection is there.\<close>

definition load_body ::
  "(db_call \<Rightarrow> bool) \<Rightarrow> (string \<Rightarrow> csv_data option) \<Rightarrow> timestamp \<Rightarrow> load_state \<Rightarrow> step_result" where
  "load_body raises processed now s =
     and_then (create_database_schema raises s) (\<lambda>s1.
     and_then (if raises GetEngine then Failed s1 else Done s1) (\<lambda>s2.
     and_then (load_files raises processed files_to_load s2) (\<lambda>s3.
     and_then (create_analytical_views raises s3) (\<lambda>s4.
     and_then (create_indexes raises s4) (\<lambda>s5.
     insert_metadata raises now s5)))))"

text \<open>\<^verbatim>\<open>conn.commit()\<close>: what the transaction of \<^verbatim>\<open>conn\<close> created enters the store.\<close>

definition commit :: "load_state \<Rightarrow> load_state" where
  "commit s =
     s\<lparr>db := (db s)\<lparr>relations :=
                      fold (\<lambda>t m. m(t \<mapsto> empty_relation t)) (pending s) (relations (db s))\<rparr>,
       pending := []\<rparr>"

datatype exn = AirflowException | DatabaseError

datatype outcome = Returned bool | Raised exn | Blocked

text \<open>
  The handler of lines 130-135, with \<^verbatim>\<open>conn\<close> bound: \<^verbatim>\<open>conn.rollback()\<close> and
  \<^verbatim>\<open>conn.close()\<close>, then \<^verbatim>\<open>raise AirflowException\<close>. An exception of the rollback or
  of the close leaves the handler instead. What the transaction of \<^verbatim>\<open>conn\<close> created is
  gone either way; the store keeps what the hook and the engine have done.
\<close>

definition on_exception :: "(db_call \<Rightarrow> bool) \<Rightarrow> load_state \<Rightarrow> outcome \<times> store" where
  "on_exception raises s =
     (if raises RollbackTx then (Raised DatabaseError, db s)
      else if raises CloseConn then (Raised DatabaseError, db s)
      else (Raised AirflowException, db s))"

text \<open>
  \<^verbatim>\<open>load_data\<close>. Without a configuration it returns False; an exception before
  \<^verbatim>\<open>conn\<close> is bound (no \<^verbatim>\<open>postgres_conn_id\<close>, no connection) goes to the handler with
  nothing to roll back.
\<close>

definition load_data ::
  "config option \<Rightarrow> config option \<Rightarrow> (db_call \<Rightarrow> bool) \<Rightarrow> timestamp \<Rightarrow> files \<Rightarrow> store
   \<Rightarrow> outcome \<times> store" where
  "load_data cfg scripts_config raises now fs st =
     (case resolve_config cfg scripts_config of
        None \<Rightarrow> (Returned False, st)
      | Some c \<Rightarrow>
          (case postgres_conn_id c of
             None \<Rightarrow> (Raised AirflowException, st)
           | Some conn_id \<Rightarrow>
               if raises Connect then (Raised AirflowException, st)
               else (case load_body raises (processed_csv fs) now
                            \<lparr>db = st, pending = [], rows_loaded = 0\<rparr> of
                       Done s \<Rightarrow>
                         if raises CommitTx then on_exception raises s
                         else if raises CloseConn then on_exception raises (commit s)
                         else (Returned True, db (commit s))
                     | Failed s \<Rightarrow> on_exception raises s
                     | Stuck s \<Rightarrow> (Blocked, db s))))"

section \<open>The orchestration (main.py, \<^verbatim>\<open>run_pipeline\<close>)\<close>

text \<open>
  What a run meets: the configuration of the \<^verbatim>\<open>scripts\<close> package, the responses of the
  three URLs, the clock, and the calls to the store that raise.
\<close>

record env =
  scripts_config :: "config option"
  responses :: "category \<Rightarrow> response"
  clock :: timestamp
  store_raises :: "db_call \<Rightarrow> bool"

text \<open>
  \<^verbatim>\<open>run_pipeline\<close>: each stage is called without arguments and its result is tested
  with \<^verbatim>\<open>if not ...: return False\<close>; an exception of a stage is logged to
  \<^verbatim>\<open>pipeline_metadata.txt\<close>, as is a success. The result of the quality checks is only
  logged. \<open>None\<close> stands for a run that does not return.
\<close>

definition run_pipeline :: "env \<Rightarrow> files \<Rightarrow> store \<Rightarrow> bool option \<times> files \<times> store" where
  "run_pipeline e fs st =
     (let ex = extract_data None (scripts_config e) (responses e) (clock e) fs
      in if \<not> truthy (fst ex) then (Some False, snd ex, st)
         else (let tr = transform_data None (scripts_config e) (clock e) (snd ex)
               in if \<not> fst tr then (Some False, snd tr, st)
                  else (case load_data None (scripts_config e) (store_raises e) (clock e) (snd tr) st of
                          (Returned ok, st') \<Rightarrow>
                            if \<not> ok then (Some False, snd tr, st')
                            else (Some True,
                                  (snd tr)\<lparr>pipeline_metadata :=
                                     pipeline_metadata (snd tr) @ [(clock e, True)]\<rparr>, st')
                        | (Raised x, st') \<Rightarrow>
                            (Some False,
                             (snd tr)\<lparr>pipeline_metadata :=
                                pipeline_metadata (snd tr) @ [(clock e, False)]\<rparr>, st')
                        | (Blocked, st') \<Rightarrow> (None, snd tr, st'))))"

section \<open>Notions used to state the properties\<close>

text \<open>
  What an observation takes over from its row of the confirmed long table: the identity
  columns (Province/State after \<^verbatim>\<open>fillna\<close>), latitude and longitude, the date and the
  confirmed count.
\<close>

definition backbone :: "'a obs_scheme \<Rightarrow> string \<times> string \<times> coord \<times> coord \<times> date \<times> int" where
  "backbone r = (province_state r, country_region r, lat r, long r, date r, confirmed r)"

definition backbone_long :: "date long_row \<Rightarrow> string \<times> string \<times> coord \<times> coord \<times> date \<times> int" where
  "backbone_long l =
     (fillna ''Unknown'' (l_province_state l), l_country_region l, l_lat l, l_long l,
      l_date l, l_value l)"

text \<open>
  How many rows a left merge makes of the left row \<open>l\<close>: one per right row with its join
  key (Province/State, Country/Region, date), one when there is none or no right frame.
\<close>

definition fan_out :: "date long_frame option \<Rightarrow> date long_row \<Rightarrow> nat" where
  "fan_out ds l =
     (case ds of
        None \<Rightarrow> 1
      | Some f \<Rightarrow> max 1 (length (filter (\<lambda>r. long_key r = long_key l) (long_rows f))))"

text \<open>
  The mortality rate in the words of the specification's testable property: 0 when
  confirmed is 0, deaths / confirmed * 100 otherwise.
\<close>

definition spec_mortality_rate :: "int \<Rightarrow> int \<Rightarrow> fnum" where
  "spec_mortality_rate c d = (if c = 0 then Fin 0 else Fin (of_int d / of_int c * 100))"

definition country_row_key :: "country_row \<Rightarrow> string \<times> date" where
  "country_row_key c = (c_country_region c, c_date c)"

text \<open>
  The first differences of a series of values after a predecessor \<open>p\<close> (none for the
  first value of a series).
\<close>

fun diffs_from :: "int option \<Rightarrow> int list \<Rightarrow> int option list" where
  "diffs_from p [] = []"
| "diffs_from p (v # vs) = map_option (\<lambda>q. v - q) p # diffs_from (Some v) vs"

text \<open>\<^verbatim>\<open>pd.to_datetime\<close> on one row whose header parses.\<close>

definition conv_date :: "string long_row \<Rightarrow> date long_row" where
  "conv_date r =
     \<lparr>l_province_state = l_province_state r, l_country_region = l_country_region r,
      l_lat = l_lat r, l_long = l_long r, l_date = the (strptime_mdy (l_date r)),
      l_value = l_value r\<rparr>"

section \<open>Example inputs\<close>

definition region_a :: id_row where
  "region_a =
     \<lparr>w_province_state = None, w_country_region = ''A'', w_lat = Some 10, w_long = Some 20\<rparr>"

definition region_a_p :: id_row where
  "region_a_p =
     \<lparr>w_province_state = Some ''P'', w_country_region = ''A'', w_lat = Some 11, w_long = Some 21\<rparr>"

text \<open>Two regions of one country on three days; the first series is 10, 15, 12.\<close>

definition ex_confirmed_wide :: wide_table where
  "ex_confirmed_wide =
     \<lparr>ids = [region_a, region_a_p],
      value_cols = [(''1/22/20'', [10, 0]), (''1/23/20'', [15, 4]), (''1/24/20'', [12, 4])]\<rparr>"

definition ex_deaths_wide :: wide_table where
  "ex_deaths_wide =
     \<lparr>ids = [region_a, region_a_p],
      value_cols = [(''1/22/20'', [1, 0]), (''1/23/20'', [3, 0]), (''1/24/20'', [3, 1])]\<rparr>"

definition ex_confirmed_long :: "date long_frame" where
  "ex_confirmed_long = projr (reshape Confirmed ex_confirmed_wide)"

definition ex_deaths_long :: "date long_frame" where
  "ex_deaths_long = projr (reshape Deaths ex_deaths_wide)"

definition ex_observations :: "obs list" where
  "ex_observations = reconcile ex_confirmed_long (Some ex_deaths_long) None"

text \<open>One region on one day in confirmed; the deaths file lists that region twice.\<close>

definition ex_single_wide :: wide_table where
  "ex_single_wide = \<lparr>ids = [region_a_p], value_cols = [(''1/22/20'', [10])]\<rparr>"

definition ex_twice_wide :: wide_table where
  "ex_twice_wide = \<lparr>ids = [region_a_p, region_a_p], value_cols = [(''1/22/20'', [1, 2])]\<rparr>"

definition ex_single_long :: "date long_frame" where
  "ex_single_long = projr (reshape Confirmed ex_single_wide)"

definition ex_twice_long :: "date long_frame" where
  "ex_twice_long = projr (reshape Deaths ex_twice_wide)"

text \<open>A confirmed count below zero, with one death.\<close>

definition ex_negative_wide :: wide_table where
  "ex_negative_wide = \<lparr>ids = [region_a_p], value_cols = [(''1/22/20'', [- 5])]\<rparr>"

definition ex_one_death_wide :: wide_table where
  "ex_one_death_wide = \<lparr>ids = [region_a_p], value_cols = [(''1/22/20'', [1])]\<rparr>"

definition ex_negative_long :: "date long_frame" where
  "ex_negative_long = projr (reshape Confirmed ex_negative_wide)"

definition ex_one_death_long :: "date long_frame" where
  "ex_one_death_long = projr (reshape Deaths ex_one_death_wide)"

text \<open>The state in which a step ends.\<close>

definition state_of :: "step_result \<Rightarrow> load_state" where
  "state_of r = (case r of Done s \<Rightarrow> s | Failed s \<Rightarrow> s | Stuck s \<Rightarrow> s)"

text \<open>The configuration of the DAG, and the three downloads of the example tables.\<close>

definition ex_config :: config where
  "ex_config =
     \<lparr>raw_data_path = ''/opt/airflow/data/raw'',
      processed_data_path = ''/opt/airflow/data/processed'',
      postgres_conn_id = Some ''covid_data''\<rparr>"

definition ex_responses :: "category \<Rightarrow> response" where
  "ex_responses cat =
     (case cat of
        Confirmed \<Rightarrow> Body (Csv (Wide ex_confirmed_wide))
      | Deaths \<Rightarrow> Body (Csv (Wide ex_deaths_wide))
      | Recovered \<Rightarrow> Body (Csv (Wide ex_deaths_wide)))"

definition no_files :: files where
  "no_files =
     \<lparr>raw_csv = (\<lambda>cat. None), extraction_metadata = None, processed_csv = (\<lambda>f. None),
      transformation_metadata = None, pipeline_metadata = []\<rparr>"

text \<open>Notions for the load stage: the steps after the schema creation.\<close>

definition load_rest ::
  "(db_call \<Rightarrow> bool) \<Rightarrow> (string \<Rightarrow> csv_data option) \<Rightarrow> timestamp \<Rightarrow> load_state \<Rightarrow> step_result" where
  "load_rest raises processed now s1 =
     and_then (if raises GetEngine then Failed s1 else Done s1) (\<lambda>s2.
     and_then (load_files raises processed files_to_load s2) (\<lambda>s3.
     and_then (create_analytical_views raises s3) (\<lambda>s4.
     and_then (create_indexes raises s4) (\<lambda>s5.
     insert_metadata raises now s5))))"

text \<open>A step from \<open>s\<close> to \<open>s'\<close> that leaves relation \<open>t\<close> and the open transaction alone.\<close>

definition keeps :: "string \<Rightarrow> load_state \<Rightarrow> load_state \<Rightarrow> bool" where
  "keeps t s s' = (relations (db s') t = relations (db s) t \<and> pending s' = pending s)"

text \<open>
  A state in which the three destination tables are in the store and not part of the
  open transaction, and \<^verbatim>\<open>etl_metadata\<close>, if it is there, is the audit table.
\<close>

definition ready :: "load_state \<Rightarrow> bool" where
  "ready s =
     (list_all (\<lambda>entry. relations (db s) (snd entry) \<noteq> None \<and> snd entry \<notin> set (pending s))
        files_to_load
      \<and> (case relations (db s) ''etl_metadata'' of Some (DataTable d) \<Rightarrow> False | _ \<Rightarrow> True))"

text \<open>The store raises at one call, or at none.\<close>

definition raises_at :: "db_call \<Rightarrow> db_call \<Rightarrow> bool" where
  "raises_at c call = (call = c)"

definition never_raises :: "db_call \<Rightarrow> bool" where
  "never_raises call = False"

text \<open>
  The files after the three example downloads and after the transform stage; the same
  without the daily changes file.
\<close>

definition ex_raw_files :: files where
  "ex_raw_files = snd (extract_data (Some ex_config) None ex_responses 7 no_files)"

definition ex_processed_files :: files where
  "ex_processed_files = snd (transform_data (Some ex_config) None 8 ex_raw_files)"

definition ex_two_files :: files where
  "ex_two_files =
     ex_processed_files\<lparr>processed_csv :=
       (processed_csv ex_processed_files)(''covid_daily_changes.csv'' := None)\<rparr>"

text \<open>A store that holds an earlier generation of the tables, with views and indexes.\<close>

definition ex_old_store :: store where
  "ex_old_store =
     \<lparr>relations =
        [''full_data'' \<mapsto> DataTable (FullRows (take 1 ex_observations)),
         ''country_summary'' \<mapsto> DataTable (CountryRows (take 1 (country_data ex_observations))),
         ''daily_changes'' \<mapsto> DataTable (DailyRows (take 1 (daily_data ex_observations))),
         ''etl_metadata'' \<mapsto> AuditTable []],
      views = {''vw_latest_global_summary'', ''vw_top_countries'', ''vw_global_daily''},
      indexes = {''idx_full_country'', ''idx_full_date'', ''idx_summary_date'',
                 ''idx_changes_country'', ''idx_changes_date''}\<rparr>"

text \<open>The raw files after a download of confirmed and an empty response for deaths.\<close>

definition ex_empty_deaths :: "category \<Rightarrow> response" where
  "ex_empty_deaths cat =
     (case cat of
        Confirmed \<Rightarrow> Body (Csv (Wide ex_confirmed_wide))
      | Deaths \<Rightarrow> Body NoBytes
      | Recovered \<Rightarrow> RequestFailed)"

definition ex_confirmed_only :: files where
  "ex_confirmed_only = no_files\<lparr>raw_csv := [Confirmed \<mapsto> Csv (Wide ex_confirmed_wide)]\<rparr>"

text \<open>A confirmed file whose date header is not in the format month/day/year.\<close>

definition ex_iso_wide :: wide_table where
  "ex_iso_wide = \<lparr>ids = [region_a], value_cols = [(''2020-01-22'', [10])]\<rparr>"

definition ex_iso_files :: files where
  "ex_iso_files = no_files\<lparr>raw_csv := [Confirmed \<mapsto> Csv (Wide ex_iso_wide)]\<rparr>"

section \<open>Properties of the reshape step\<close>

lemma to_datetime_ok:
  "\<forall>r \<in> set rs. strptime_mdy (l_date r) \<noteq> None \<Longrightarrow> to_datetime rs = Inr (map conv_date rs)"
  by (induction rs) (auto simp: conv_date_def)

lemma to_datetime_fail:
  "r \<in> set rs \<Longrightarrow> strptime_mdy (l_date r) = None \<Longrightarrow> to_datetime rs = Inl ValueError"
  by (induction rs) (auto split: option.splits sum.splits)

lemma length_concat_uniform:
  "\<forall>xs \<in> set xss. length xs = m \<Longrightarrow> length (concat xss) = length xss * m"
  by (induction xss) auto

lemma nth_concat_uniform:
  "\<forall>xs \<in> set xss. length xs = m \<Longrightarrow> j < length xss \<Longrightarrow> i < m \<Longrightarrow>
   concat xss ! (j * m + i) = xss ! j ! i"
proof (induction xss arbitrary: j)
  case Nil
  then show ?case by simp
next
  case (Cons xs xss)
  show ?case
  proof (cases j)
    case 0
    with Cons.prems show ?thesis by (simp add: nth_append)
  next
    case (Suc j')
    have "concat (xs # xss) ! (j * m + i) = concat xss ! (j' * m + i)"
      using Cons.prems Suc by (simp add: nth_append)
    also have "\<dots> = xss ! j' ! i"
      using Cons.prems Suc by (intro Cons.IH) auto
    finally show ?thesis using Suc by simp
  qed
qed

lemma melt_dates:
  "r \<in> set (long_rows (melt df v)) \<Longrightarrow> l_date r \<in> set (map fst (value_cols df))"
  by (force simp: melt_def melt_row_def)

lemma ex_confirmed_reshape: "reshape Confirmed ex_confirmed_wide = Inr ex_confirmed_long"
  by code_simp

lemma ex_deaths_reshape: "reshape Deaths ex_deaths_wide = Inr ex_deaths_long"
  by code_simp

text \<open>
  Claim C5. A wide table with \<open>M\<close> rows and \<open>N\<close> value columns whose headers all parse
  as dates reshapes, without error, to a long frame of exactly \<open>N * M\<close> rows; its value
  column is named after the category; row \<open>j * M + i\<close> carries the parsed date of
  column \<open>j\<close>, the cell of column \<open>j\<close> in table row \<open>i\<close>, and the identity columns
  of table row \<open>i\<close>.
\<close>

theorem reshape_row_count:
  assumes wf: "wf_wide df"
    and hdr: "\<forall>h \<in> set (map fst (value_cols df)). strptime_mdy h \<noteq> None"
  shows "\<exists>f. reshape cat df = Inr f
           \<and> value_name f = category_name cat
           \<and> length (long_rows f) = length (value_cols df) * length (ids df)
           \<and> (\<forall>j < length (value_cols df). \<forall>i < length (ids df).
                 strptime_mdy (fst (value_cols df ! j))
                   = Some (l_date (long_rows f ! (j * length (ids df) + i)))
               \<and> l_value (long_rows f ! (j * length (ids df) + i)) = snd (value_cols df ! j) ! i
               \<and> l_province_state (long_rows f ! (j * length (ids df) + i))
                   = w_province_state (ids df ! i)
               \<and> l_country_region (long_rows f ! (j * length (ids df) + i))
                   = w_country_region (ids df ! i)
               \<and> l_lat (long_rows f ! (j * length (ids df) + i)) = w_lat (ids df ! i)
               \<and> l_long (long_rows f ! (j * length (ids df) + i)) = w_long (ids df ! i))"
proof -
  let ?M = "length (ids df)"
  let ?blocks = "map (\<lambda>col. map (melt_row (fst col)) (zip (ids df) (snd col))) (value_cols df)"
  let ?rows = "long_rows (melt df (category_name cat))"
  have rows: "?rows = concat ?blocks" by (simp add: melt_def)
  have uni: "\<forall>xs \<in> set ?blocks. length xs = ?M"
    using wf by (auto simp: wf_wide_def list_all_iff)
  have len: "length ?rows = length (value_cols df) * ?M"
    using length_concat_uniform [OF uni] rows by simp
  have parse: "\<forall>r \<in> set ?rows. strptime_mdy (l_date r) \<noteq> None"
    using hdr melt_dates [of _ df "category_name cat"] by blast
  have conv: "to_datetime ?rows = Inr (map conv_date ?rows)"
    by (rule to_datetime_ok [OF parse])
  let ?f = "\<lparr>value_name = category_name cat, long_rows = map conv_date ?rows\<rparr>"
  have res: "reshape cat df = Inr ?f"
    using conv by (simp add: reshape_def Let_def melt_def)
  have cell: "?rows ! (j * ?M + i) = melt_row (fst (value_cols df ! j)) (ids df ! i, snd (value_cols df ! j) ! i)"
    if "j < length (value_cols df)" "i < ?M" for j i
  proof -
    have "length (snd (value_cols df ! j)) = ?M"
      using wf that by (auto simp: wf_wide_def list_all_iff)
    then have "?blocks ! j ! i = melt_row (fst (value_cols df ! j)) (ids df ! i, snd (value_cols df ! j) ! i)"
      using that by simp
    moreover have "concat ?blocks ! (j * ?M + i) = ?blocks ! j ! i"
      using that by (intro nth_concat_uniform [OF uni]) auto
    ultimately show ?thesis using rows by simp
  qed
  have inb: "j * ?M + i < length ?rows" if "j < length (value_cols df)" "i < ?M" for j i
  proof -
    have "j * ?M + i < Suc j * ?M" using that by simp
    also have "\<dots> \<le> length (value_cols df) * ?M"
      using that by (intro mult_le_mono1) simp
    finally show ?thesis using len by simp
  qed
  have hd: "strptime_mdy (fst (value_cols df ! j)) \<noteq> None" if "j < length (value_cols df)" for j
  proof -
    have "fst (value_cols df ! j) \<in> set (map fst (value_cols df))"
      using that by simp
    with hdr show ?thesis by blast
  qed
  have "\<forall>j < length (value_cols df). \<forall>i < ?M.
          strptime_mdy (fst (value_cols df ! j)) = Some (l_date (long_rows ?f ! (j * ?M + i)))
        \<and> l_value (long_rows ?f ! (j * ?M + i)) = snd (value_cols df ! j) ! i
        \<and> l_province_state (long_rows ?f ! (j * ?M + i)) = w_province_state (ids df ! i)
        \<and> l_country_region (long_rows ?f ! (j * ?M + i)) = w_country_region (ids df ! i)
        \<and> l_lat (long_rows ?f ! (j * ?M + i)) = w_lat (ids df ! i)
        \<and> l_long (long_rows ?f ! (j * ?M + i)) = w_long (ids df ! i)"
  proof (intro allI impI)
    fix j i assume j: "j < length (value_cols df)" and i: "i < ?M"
    have "long_rows ?f ! (j * ?M + i) = conv_date (?rows ! (j * ?M + i))"
      using inb [OF j i] by simp
    then show "strptime_mdy (fst (value_cols df ! j)) = Some (l_date (long_rows ?f ! (j * ?M + i)))
        \<and> l_value (long_rows ?f ! (j * ?M + i)) = snd (value_cols df ! j) ! i
        \<and> l_province_state (long_rows ?f ! (j * ?M + i)) = w_province_state (ids df ! i)
        \<and> l_country_region (long_rows ?f ! (j * ?M + i)) = w_country_region (ids df ! i)
        \<and> l_lat (long_rows ?f ! (j * ?M + i)) = w_lat (ids df ! i)
        \<and> l_long (long_rows ?f ! (j * ?M + i)) = w_long (ids df ! i)"
      using cell [OF j i] hd [OF j] by (auto simp: conv_date_def melt_row_def)
  qed
  with res len show ?thesis by (intro exI [of _ ?f]) simp
qed

theorem reshape_row_count_witness:
  "wf_wide ex_confirmed_wide
   \<and> list_all (\<lambda>h. strptime_mdy h \<noteq> None) (map fst (value_cols ex_confirmed_wide))
   \<and> length (value_cols ex_confirmed_wide) = 3 \<and> length (ids ex_confirmed_wide) = 2
   \<and> length (long_rows ex_confirmed_long) = 3 * 2
   \<and> l_date (long_rows ex_confirmed_long ! (1 * 2 + 0)) = (2020, 1, 23)
   \<and> l_value (long_rows ex_confirmed_long ! (1 * 2 + 0)) = 15"
proof -
  have wf: "wf_wide ex_confirmed_wide" by code_simp
  have hdr: "\<forall>h \<in> set (map fst (value_cols ex_confirmed_wide)). strptime_mdy h \<noteq> None"
    by code_simp
  have n: "length (value_cols ex_confirmed_wide) = 3" "length (ids ex_confirmed_wide) = 2"
    by (simp_all add: ex_confirmed_wide_def)
  have col: "value_cols ex_confirmed_wide ! 1 = (''1/23/20'', [15, 4])"
    by (simp add: ex_confirmed_wide_def)
  have d: "strptime_mdy ''1/23/20'' = Some (2020, 1, 23)" by code_simp
  from reshape_row_count [OF wf hdr, of Confirmed]
  have len: "length (long_rows ex_confirmed_long) = 3 * 2"
    and cells: "\<forall>j < 3. \<forall>i < 2.
        strptime_mdy (fst (value_cols ex_confirmed_wide ! j))
          = Some (l_date (long_rows ex_confirmed_long ! (j * 2 + i)))
      \<and> l_value (long_rows ex_confirmed_long ! (j * 2 + i))
          = snd (value_cols ex_confirmed_wide ! j) ! i"
    unfolding ex_confirmed_reshape n by auto
  have "(1::nat) < 3" and "(0::nat) < 2" by simp_all
  with cells have "strptime_mdy (fst (value_cols ex_confirmed_wide ! 1))
          = Some (l_date (long_rows ex_confirmed_long ! (1 * 2 + 0)))
      \<and> l_value (long_rows ex_confirmed_long ! (1 * 2 + 0))
          = snd (value_cols ex_confirmed_wide ! 1) ! 0"
    by blast
  then have "l_date (long_rows ex_confirmed_long ! (1 * 2 + 0)) = (2020, 1, 23)
      \<and> l_value (long_rows ex_confirmed_long ! (1 * 2 + 0)) = 15"
    unfolding col by (simp add: d)
  then show ?thesis
    using wf hdr n len by (simp add: list_all_iff)
qed

section \<open>Properties of the join\<close>

lemma left_merge_fst:
  "map fst (left_merge kl kr left right) =
   concat (map (\<lambda>l. replicate (max 1 (length (filter (\<lambda>r. kr r = kl l) right))) l) left)"
proof (induction left)
  case Nil
  then show ?case by (simp add: left_merge_def)
next
  case (Cons l left)
  have "map fst (case filter (\<lambda>r. kr r = kl l) right of [] \<Rightarrow> [(l, None)]
                  | ms \<Rightarrow> map (\<lambda>r. (l, Some r)) ms)
        = replicate (max 1 (length (filter (\<lambda>r. kr r = kl l) right))) l"
    by (cases "filter (\<lambda>r. kr r = kl l) right") (simp_all add: map_replicate_const comp_def)
  with Cons show ?case by (simp add: left_merge_def)
qed

lemma merge_deaths_fst:
  "map fst (merge_deaths rows df) = concat (map (\<lambda>l. replicate (fan_out df l) l) rows)"
proof (cases df)
  case None
  then show ?thesis by (induction rows) (simp_all add: merge_deaths_def fan_out_def)
next
  case (Some f)
  have "map fst (merge_deaths rows df) = map fst (left_merge long_key long_key rows (long_rows f))"
    using Some by (simp add: merge_deaths_def comp_def)
  then show ?thesis using Some by (simp add: left_merge_fst fan_out_def)
qed

lemma backbone_calc_row:
  "backbone (calc_row (mk_merged p rc)) = backbone_long (fst p)"
  by (simp add: backbone_def calc_row_def mk_merged_def backbone_long_def Let_def)

lemma merge_recovered_backbone:
  "map (\<lambda>m. backbone (calc_row m)) (merge_recovered ps rf) =
   concat (map (\<lambda>p. replicate (fan_out rf (fst p)) (backbone_long (fst p))) ps)"
proof (cases rf)
  case None
  then show ?thesis
    by (induction ps) (simp_all add: merge_recovered_def fan_out_def backbone_calc_row)
next
  case (Some f)
  have "map (\<lambda>m. backbone (calc_row m)) (merge_recovered ps rf)
        = map (\<lambda>q. backbone_long (fst q))
            (map fst (left_merge (\<lambda>p. long_key (fst p)) long_key ps (long_rows f)))"
    using Some by (simp add: merge_recovered_def comp_def backbone_calc_row)
  also have "\<dots> = concat (map (\<lambda>p. replicate (fan_out rf (fst p)) (backbone_long (fst p))) ps)"
    using Some by (simp add: left_merge_fst fan_out_def map_concat comp_def)
  finally show ?thesis .
qed

lemma concat_replicate_blocks:
  "concat (map (\<lambda>p. replicate (n (fst p)) (g (fst p))) ps) =
   concat (map (\<lambda>l. replicate (n l) (g l)) (map fst ps))"
  by (simp add: comp_def)

lemma concat_replicate_replicate:
  "concat (replicate k (replicate n x)) = replicate (k * n) x"
  by (induction k) (simp_all add: replicate_add)

lemma concat_map_concat_replicate:
  "concat (map (\<lambda>l. replicate (n l) (g l)) (concat (map (\<lambda>l. replicate (k l) l) rows))) =
   concat (map (\<lambda>l. replicate (k l * n l) (g l)) rows)"
proof (induction rows)
  case Nil
  then show ?case by simp
next
  case (Cons l rows)
  have "concat (map (\<lambda>l. replicate (n l) (g l)) (replicate (k l) l)) = replicate (k l * n l) (g l)"
    by (simp add: concat_replicate_replicate)
  with Cons show ?case by simp
qed

lemma reconcile_backbone:
  "map backbone (reconcile cf df rf) =
   concat (map (\<lambda>l. replicate (fan_out df l * fan_out rf l) (backbone_long l)) (long_rows cf))"
proof -
  have "map backbone (reconcile cf df rf) =
        map (\<lambda>m. backbone (calc_row m)) (merge_recovered (merge_deaths (long_rows cf) df) rf)"
    by (simp add: reconcile_def comp_def)
  also have "\<dots> = concat (map (\<lambda>l. replicate (fan_out rf l) (backbone_long l))
                      (map fst (merge_deaths (long_rows cf) df)))"
    by (simp only: merge_recovered_backbone concat_replicate_blocks)
  also have "\<dots> = concat (map (\<lambda>l. replicate (fan_out df l * fan_out rf l) (backbone_long l))
                      (long_rows cf))"
    by (simp only: merge_deaths_fst concat_map_concat_replicate)
  finally show ?thesis .
qed

lemma concat_replicate_one:
  "\<forall>l \<in> set rows. n l = Suc 0 \<Longrightarrow> concat (map (\<lambda>l. replicate (n l) (g l)) rows) = map g rows"
  by (induction rows) simp_all

lemma fan_out_pos: "0 < fan_out ds l"
  by (cases ds) (auto simp: fan_out_def max_def)

text \<open>
  Claim C2, as stated, fails: the confirmed file holds one region on one day, the deaths
  file lists that region twice (both files reshape without error), and the reconciled
  output has two rows for the one (region, date) of confirmed.
\<close>

theorem reconcile_once_counterexample:
  "reshape Confirmed ex_single_wide = Inr ex_single_long
   \<and> reshape Deaths ex_twice_wide = Inr ex_twice_long
   \<and> length (long_rows ex_single_long) = 1
   \<and> map backbone (reconcile ex_single_long (Some ex_twice_long) None)
       = [(''P'', ''A'', Some 11, Some 21, (2020, 1, 22), 10),
          (''P'', ''A'', Some 11, Some 21, (2020, 1, 22), 10)]
   \<and> map deaths (reconcile ex_single_long (Some ex_twice_long) None) = [1, 2]"
  by code_simp

text \<open>
  Claim C2, amended. The reconciled output is a left join on (Province/State,
  Country/Region, date): in the order of the confirmed long table, each of its rows
  appears once for every pair of a deaths row and a recovered row with its join key
  (\<open>fan_out\<close>, at least once), with the identity columns, latitude, longitude, date and
  confirmed count of the confirmed side. So the output has a row for every row of
  confirmed and for no other key, and exactly one row per row of confirmed whenever
  deaths and recovered hold each join key of confirmed at most once.
\<close>

theorem reconcile_left_join:
  "map backbone (reconcile cf df rf) =
     concat (map (\<lambda>l. replicate (fan_out df l * fan_out rf l) (backbone_long l)) (long_rows cf))
   \<and> set (map backbone (reconcile cf df rf)) = set (map backbone_long (long_rows cf))
   \<and> ((\<forall>l \<in> set (long_rows cf). fan_out df l = 1 \<and> fan_out rf l = 1) \<longrightarrow>
        map backbone (reconcile cf df rf) = map backbone_long (long_rows cf))"
proof (intro conjI impI)
  show eq: "map backbone (reconcile cf df rf) =
     concat (map (\<lambda>l. replicate (fan_out df l * fan_out rf l) (backbone_long l)) (long_rows cf))"
    by (rule reconcile_backbone)
  have pos: "fan_out df l \<noteq> 0" "fan_out rf l \<noteq> 0" for l
    using fan_out_pos [of df l] fan_out_pos [of rf l] by simp_all
  have "set (concat (map (\<lambda>l. replicate (fan_out df l * fan_out rf l) (backbone_long l)) rows))
        = set (map backbone_long rows)" for rows
    by (induction rows) (simp_all add: set_replicate_conv_if pos)
  with eq show "set (map backbone (reconcile cf df rf)) = set (map backbone_long (long_rows cf))"
    by simp
next
  assume one: "\<forall>l \<in> set (long_rows cf). fan_out df l = 1 \<and> fan_out rf l = 1"
  then have "\<forall>l \<in> set (long_rows cf). fan_out df l * fan_out rf l = Suc 0" by simp
  then show "map backbone (reconcile cf df rf) = map backbone_long (long_rows cf)"
    by (simp only: reconcile_backbone concat_replicate_one)
qed

theorem reconcile_left_join_witness:
  "list_all (\<lambda>l. fan_out (Some ex_deaths_long) l = 1 \<and> fan_out None l = 1)
     (long_rows ex_confirmed_long)
   \<and> map backbone (reconcile ex_confirmed_long (Some ex_deaths_long) None)
       = map backbone_long (long_rows ex_confirmed_long)
   \<and> length (reconcile ex_confirmed_long (Some ex_deaths_long) None) = 6"
proof -
  have one: "\<forall>l \<in> set (long_rows ex_confirmed_long).
               fan_out (Some ex_deaths_long) l = 1 \<and> fan_out None l = 1"
    by code_simp
  have len: "length (long_rows ex_confirmed_long) = 6" by code_simp
  from reconcile_left_join [of ex_confirmed_long "Some ex_deaths_long" None] one
  have eq: "map backbone (reconcile ex_confirmed_long (Some ex_deaths_long) None)
              = map backbone_long (long_rows ex_confirmed_long)"
    by blast
  from arg_cong [OF eq, of length] len
  have "length (reconcile ex_confirmed_long (Some ex_deaths_long) None) = 6" by simp
  with one eq show ?thesis by (simp add: list_all_iff)
qed

section \<open>Properties of the calculated fields and the aggregation\<close>

lemma rate_guard:
  "np_where (0 < c) (fmul (truediv d c) 100) (Fin 0) =
   (if 0 < c then Fin (of_int d / of_int c * 100) else Fin 0)"
  by (simp add: np_where_def fmul_def truediv_def)

lemma calc_row_rate:
  "mortality_rate (calc_row m) =
   (if 0 < confirmed (calc_row m)
    then Fin (of_int (deaths (calc_row m)) / of_int (confirmed (calc_row m)) * 100) else Fin 0)"
  by (simp add: calc_row_def Let_def rate_guard)

lemma agg_row_rate:
  "c_mortality_rate (agg_row td k) =
   (if 0 < c_confirmed (agg_row td k)
    then Fin (of_int (c_deaths (agg_row td k)) / of_int (c_confirmed (agg_row td k)) * 100)
    else Fin 0)"
  by (simp add: agg_row_def Let_def rate_guard)

text \<open>
  Claim C6, as stated, fails: a confirmed count of -5 with 1 death is not 0, and the
  observation's mortality rate is 0, not deaths / confirmed * 100 = -20.
\<close>

theorem mortality_rate_counterexample:
  "reshape Confirmed ex_negative_wide = Inr ex_negative_long
   \<and> reshape Deaths ex_one_death_wide = Inr ex_one_death_long
   \<and> map (\<lambda>r. (confirmed r, deaths r, mortality_rate r))
        (reconcile ex_negative_long (Some ex_one_death_long) None) = [(- 5, 1, Fin 0)]
   \<and> map (\<lambda>c. (c_confirmed c, c_deaths c, c_mortality_rate c))
        (country_data (reconcile ex_negative_long (Some ex_one_death_long) None))
       = [(- 5, 1, Fin 0)]
   \<and> spec_mortality_rate (- 5) 1 = Fin (- 20)"
  by code_simp

text \<open>
  Claim C6, amended. For every observation and every country summary row the mortality
  rate is deaths / confirmed * 100 when confirmed is greater than 0, and exactly 0
  otherwise (confirmed 0 or below); it is never the non-finite outcome of a division by
  zero.
\<close>

theorem mortality_rate_guarded:
  "(\<forall>r \<in> set (reconcile cf df rf).
      mortality_rate r =
        (if 0 < confirmed r then Fin (of_int (deaths r) / of_int (confirmed r) * 100) else Fin 0)
      \<and> mortality_rate r \<noteq> NotFinite)
   \<and> (\<forall>c \<in> set (country_data td).
      c_mortality_rate c =
        (if 0 < c_confirmed c then Fin (of_int (c_deaths c) / of_int (c_confirmed c) * 100)
         else Fin 0)
      \<and> c_mortality_rate c \<noteq> NotFinite)"
proof (intro conjI ballI)
  fix r assume "r \<in> set (reconcile cf df rf)"
  then obtain m where r: "r = calc_row m" by (auto simp: reconcile_def)
  show eq: "mortality_rate r =
        (if 0 < confirmed r then Fin (of_int (deaths r) / of_int (confirmed r) * 100) else Fin 0)"
    unfolding r by (rule calc_row_rate)
  show "mortality_rate r \<noteq> NotFinite" unfolding eq by simp
next
  fix c assume "c \<in> set (country_data td)"
  then obtain k where c: "c = agg_row td k" by (auto simp: country_data_def)
  show eq: "c_mortality_rate c =
        (if 0 < c_confirmed c then Fin (of_int (c_deaths c) / of_int (c_confirmed c) * 100)
         else Fin 0)"
    unfolding c by (rule agg_row_rate)
  show "c_mortality_rate c \<noteq> NotFinite" unfolding eq by simp
qed

theorem mortality_rate_guarded_witness:
  "map mortality_rate ex_observations = [Fin 10, Fin 0, Fin 20, Fin 0, Fin 25, Fin 25]
   \<and> list_all (\<lambda>r. mortality_rate r \<noteq> NotFinite) ex_observations
   \<and> list_all (\<lambda>c. c_mortality_rate c \<noteq> NotFinite) (country_data ex_observations)"
proof -
  have v: "map mortality_rate ex_observations = [Fin 10, Fin 0, Fin 20, Fin 0, Fin 25, Fin 25]"
    by code_simp
  from mortality_rate_guarded [of ex_confirmed_long "Some ex_deaths_long" None ex_observations]
  have "(\<forall>r \<in> set ex_observations. mortality_rate r \<noteq> NotFinite)
      \<and> (\<forall>c \<in> set (country_data ex_observations). c_mortality_rate c \<noteq> NotFinite)"
    unfolding ex_observations_def by blast
  with v show ?thesis by (simp add: list_all_iff)
qed

lemma agg_row_key: "country_row_key (agg_row td k) = k"
  by (simp add: country_row_key_def agg_row_def Let_def)

lemma country_data_keys:
  "map country_row_key (country_data td) = sort (remdups (map country_key td))"
  by (simp add: country_data_def comp_def agg_row_key)

text \<open>
  Claim C7. The country summary has exactly one row for each (Country/Region, date) of the
  observations; its confirmed, deaths, recovered and active are the sums of these fields
  over all observations of that key; its mortality rate is computed from the summed
  values: 0 when the summed confirmed is 0, summed deaths / summed confirmed * 100 when
  it is positive.
\<close>

theorem country_summary_sums:
  "distinct (map country_row_key (country_data td))
   \<and> sorted (map country_row_key (country_data td))
   \<and> set (map country_row_key (country_data td)) = set (map country_key td)
   \<and> (\<forall>c \<in> set (country_data td).
        c_confirmed c = sum_list (map confirmed (filter (\<lambda>r. country_key r = country_row_key c) td))
      \<and> c_deaths c = sum_list (map deaths (filter (\<lambda>r. country_key r = country_row_key c) td))
      \<and> c_recovered c = sum_list (map recovered (filter (\<lambda>r. country_key r = country_row_key c) td))
      \<and> c_active c = sum_list (map active (filter (\<lambda>r. country_key r = country_row_key c) td))
      \<and> (c_confirmed c = 0 \<longrightarrow> c_mortality_rate c = Fin 0)
      \<and> (0 < c_confirmed c \<longrightarrow>
            c_mortality_rate c = Fin (of_int (c_deaths c) / of_int (c_confirmed c) * 100)))"
proof (intro conjI ballI)
  show "distinct (map country_row_key (country_data td))"
    by (simp only: country_data_keys distinct_sort distinct_remdups)
  show "sorted (map country_row_key (country_data td))"
    by (simp only: country_data_keys sorted_sort)
  show "set (map country_row_key (country_data td)) = set (map country_key td)"
    by (simp only: country_data_keys set_sort set_remdups)
next
  fix c assume "c \<in> set (country_data td)"
  then obtain k where c: "c = agg_row td k" by (auto simp: country_data_def)
  have k: "country_row_key c = k" unfolding c by (rule agg_row_key)
  show "c_confirmed c = sum_list (map confirmed (filter (\<lambda>r. country_key r = country_row_key c) td))"
    unfolding k by (simp add: c agg_row_def Let_def)
  show "c_deaths c = sum_list (map deaths (filter (\<lambda>r. country_key r = country_row_key c) td))"
    unfolding k by (simp add: c agg_row_def Let_def)
  show "c_recovered c = sum_list (map recovered (filter (\<lambda>r. country_key r = country_row_key c) td))"
    unfolding k by (simp add: c agg_row_def Let_def)
  show "c_active c = sum_list (map active (filter (\<lambda>r. country_key r = country_row_key c) td))"
    unfolding k by (simp add: c agg_row_def Let_def)
  show "c_confirmed c = 0 \<longrightarrow> c_mortality_rate c = Fin 0"
    unfolding c by (simp add: agg_row_rate)
  show "0 < c_confirmed c \<longrightarrow>
            c_mortality_rate c = Fin (of_int (c_deaths c) / of_int (c_confirmed c) * 100)"
    unfolding c by (simp add: agg_row_rate)
qed

theorem country_summary_sums_witness:
  "map country_row_key (country_data ex_observations)
     = [(''A'', (2020, 1, 22)), (''A'', (2020, 1, 23)), (''A'', (2020, 1, 24))]
   \<and> map c_confirmed (country_data ex_observations) = [10, 19, 16]
   \<and> list_all (\<lambda>c. c_confirmed c =
        sum_list (map confirmed (filter (\<lambda>r. country_key r = country_row_key c) ex_observations)))
        (country_data ex_observations)"
proof -
  have k: "map country_row_key (country_data ex_observations)
     = [(''A'', (2020, 1, 22)), (''A'', (2020, 1, 23)), (''A'', (2020, 1, 24))]"
    by code_simp
  have c: "map c_confirmed (country_data ex_observations) = [10, 19, 16]"
    by code_simp
  from country_summary_sums [of ex_observations]
  have "\<forall>c \<in> set (country_data ex_observations). c_confirmed c =
        sum_list (map confirmed (filter (\<lambda>r. country_key r = country_row_key c) ex_observations))"
    by blast
  with k c show ?thesis by (simp add: list_all_iff)
qed

section \<open>Further properties of the reconciled observations\<close>

lemma left_merge_left: "q \<in> set (left_merge kl kr left right) \<Longrightarrow> fst q \<in> set left"
proof -
  assume "q \<in> set (left_merge kl kr left right)"
  then obtain l where l: "l \<in> set left"
    and q: "q \<in> set (case filter (\<lambda>r. kr r = kl l) right of [] \<Rightarrow> [(l, None)]
                      | ms \<Rightarrow> map (\<lambda>r. (l, Some r)) ms)"
    by (auto simp: left_merge_def)
  from q have "fst q = l"
    by (cases "filter (\<lambda>r. kr r = kl l) right") auto
  with l show ?thesis by simp
qed

lemma merge_recovered_deaths:
  "m \<in> set (merge_recovered ps rf) \<Longrightarrow> \<exists>p \<in> set ps. m_deaths m = snd p"
  by (cases rf) (force simp: merge_recovered_def mk_merged_def dest!: left_merge_left)+

lemma merge_recovered_absent:
  "m \<in> set (merge_recovered ps None) \<Longrightarrow> m_recovered m = Some 0"
  by (auto simp: merge_recovered_def mk_merged_def)

lemma merge_deaths_absent: "p \<in> set (merge_deaths rows None) \<Longrightarrow> snd p = Some 0"
  by (auto simp: merge_deaths_def)

text \<open>
  For every reconciled observation, active is exactly confirmed - deaths - recovered,
  also when that is negative.
\<close>

theorem active_is_difference:
  "\<forall>r \<in> set (reconcile cf df rf). active r = confirmed r - deaths r - recovered r"
  by (auto simp: reconcile_def calc_row_def Let_def)

theorem active_is_difference_witness:
  "map active ex_observations = [9, 0, 12, 4, 9, 3]
   \<and> list_all (\<lambda>r. active r = confirmed r - deaths r - recovered r) ex_observations"
proof -
  have "map active ex_observations = [9, 0, 12, 4, 9, 3]" by code_simp
  moreover have "\<forall>r \<in> set ex_observations. active r = confirmed r - deaths r - recovered r"
    using active_is_difference [of ex_confirmed_long "Some ex_deaths_long" None]
    unfolding ex_observations_def by blast
  ultimately show ?thesis by (simp add: list_all_iff)
qed

text \<open>
  When the deaths dataset is absent, every observation has deaths 0 and mortality rate 0;
  when the recovered dataset is absent, every observation has recovered 0.
\<close>

theorem absent_category_is_zero:
  "(\<forall>r \<in> set (reconcile cf None rf). deaths r = 0 \<and> mortality_rate r = Fin 0)
   \<and> (\<forall>r \<in> set (reconcile cf df None). recovered r = 0)"
proof (intro conjI ballI)
  fix r assume "r \<in> set (reconcile cf None rf)"
  then obtain m where m: "m \<in> set (merge_recovered (merge_deaths (long_rows cf) None) rf)"
    and r: "r = calc_row m" by (auto simp: reconcile_def)
  from merge_recovered_deaths [OF m] merge_deaths_absent have d: "m_deaths m = Some 0"
    by fastforce
  then show "deaths r = 0" by (simp add: r calc_row_def Let_def fillna_def)
  from d show "mortality_rate r = Fin 0"
    by (simp add: r calc_row_def Let_def fillna_def np_where_def truediv_def fmul_def)
next
  fix r assume "r \<in> set (reconcile cf df None)"
  then obtain m where m: "m \<in> set (merge_recovered (merge_deaths (long_rows cf) df) None)"
    and r: "r = calc_row m" by (auto simp: reconcile_def)
  from merge_recovered_absent [OF m] show "recovered r = 0"
    by (simp add: r calc_row_def Let_def fillna_def)
qed

theorem absent_category_is_zero_witness:
  "map recovered ex_observations = [0, 0, 0, 0, 0, 0]
   \<and> list_all (\<lambda>r. recovered r = 0) ex_observations"
proof -
  have "\<forall>r \<in> set ex_observations. recovered r = 0"
    using absent_category_is_zero [of ex_confirmed_long None "Some ex_deaths_long"]
    unfolding ex_observations_def by blast
  moreover have "map recovered ex_observations = [0, 0, 0, 0, 0, 0]" by code_simp
  ultimately show ?thesis by (simp add: list_all_iff)
qed

section \<open>Properties of the daily changes\<close>

lemma groupby_diff_length [simp]: "length (groupby_diff col seen rs) = length rs"
  by (induction rs arbitrary: seen) simp_all

lemma new_col_length [simp]: "length (new_col col rs) = length rs"
  by (simp add: new_col_def)

lemma groupby_diff_group:
  "map snd (filter (\<lambda>q. group_cols (fst q) = g) (zip rs (groupby_diff col seen rs))) =
   diffs_from (seen g) (map col (filter (\<lambda>r. group_cols r = g) rs))"
  by (induction rs arbitrary: seen) simp_all

lemma filter_zip_map_snd:
  "length ys = length xs \<Longrightarrow>
   map (\<lambda>q. f (snd q)) (filter (\<lambda>q. P (fst q)) (zip xs ys)) =
   map snd (filter (\<lambda>q. P (fst q)) (zip xs (map f ys)))"
  by (induction xs ys rule: list_induct2') simp_all

lemma filter_zip_fst:
  "length ys = length xs \<Longrightarrow>
   map fst (filter (\<lambda>q. P (fst q)) (zip xs ys)) = filter P xs"
  by (induction xs ys rule: list_induct2') simp_all

lemma new_col_group:
  "map snd (filter (\<lambda>q. group_cols (fst q) = g) (zip rs (new_col col rs))) =
   map (\<lambda>d. clip_lower 0 (fillna 0 d))
     (diffs_from None (map col (filter (\<lambda>r. group_cols r = g) rs)))"
proof -
  have "map snd (filter (\<lambda>q. group_cols (fst q) = g) (zip rs (new_col col rs))) =
        map (\<lambda>q. clip_lower 0 (fillna 0 (snd q)))
          (filter (\<lambda>q. group_cols (fst q) = g) (zip rs (groupby_diff col Map.empty rs)))"
    using filter_zip_map_snd [of "groupby_diff col Map.empty rs" rs "\<lambda>d. clip_lower 0 (fillna 0 d)"
        "\<lambda>r. group_cols r = g"]
    by (simp add: new_col_def comp_def)
  also have "\<dots> = map (\<lambda>d. clip_lower 0 (fillna 0 d))
          (map snd (filter (\<lambda>q. group_cols (fst q) = g) (zip rs (groupby_diff col Map.empty rs))))"
    by (simp add: comp_def)
  finally show ?thesis by (simp only: groupby_diff_group)
qed

lemma diffs_nth:
  "i < length vs \<Longrightarrow>
   map (\<lambda>d. clip_lower 0 (fillna 0 d)) (diffs_from p vs) ! i =
   (if i = 0 then (case p of None \<Rightarrow> 0 | Some q \<Rightarrow> max 0 (vs ! 0 - q))
    else max 0 (vs ! i - vs ! (i - 1)))"
proof (induction vs arbitrary: p i)
  case Nil
  then show ?case by simp
next
  case (Cons v vs)
  show ?case
  proof (cases i)
    case 0
    then show ?thesis by (cases p) (simp_all add: clip_lower_def fillna_def)
  next
    case (Suc j)
    then have "j < length vs" using Cons.prems by simp
    from Cons.IH [OF this, of "Some v"] Suc show ?thesis
      by (cases j) simp_all
  qed
qed

lemma sorted_group_dates:
  "sorted (map sort_cols xs) \<Longrightarrow> \<forall>x \<in> set xs. group_cols x = g \<Longrightarrow> sorted (map date xs)"
  by (induction xs) (auto simp: sort_cols_def group_cols_def less_eq_prod_def)

lemma zip3_cols:
  assumes "length b = length a" and "length c = length a"
  shows "map fst (zip a (zip b c)) = a"
    and "map (\<lambda>t. fst (snd t)) (zip a (zip b c)) = b"
    and "map (\<lambda>t. snd (snd t)) (zip a (zip b c)) = c"
proof -
  show "map fst (zip a (zip b c)) = a" using assms by simp
  have "map (\<lambda>t. fst (snd t)) (zip a (zip b c)) = map fst (map snd (zip a (zip b c)))"
    by (simp add: comp_def)
  then show "map (\<lambda>t. fst (snd t)) (zip a (zip b c)) = b" using assms by simp
  have "map (\<lambda>t. snd (snd t)) (zip a (zip b c)) = map snd (map snd (zip a (zip b c)))"
    by (simp add: comp_def)
  then show "map (\<lambda>t. snd (snd t)) (zip a (zip b c)) = c" using assms by simp
qed

lemma truncate_add_new: "obs.truncate (add_new q) = fst q"
  by (cases "fst q") (simp add: add_new_def obs.defs)

text \<open>
  Claim C1. The daily changes are the observations sorted by (Country/Region,
  Province/State, date) with three new columns. For every (Country/Region,
  Province/State), the rows of that series stand in ascending date order, and for each
  of confirmed, deaths and recovered the new value is 0 in the first row of the series
  and max(0, X[i] - X[i-1]) in every later row: a negative difference is clipped to 0.
\<close>

theorem daily_first_difference:
  "map obs.truncate (daily_data td) = sort_values td
   \<and> sorted (map date (filter (\<lambda>r. group_cols r = g) (daily_data td)))
   \<and> (\<forall>i < length (filter (\<lambda>r. group_cols r = g) (daily_data td)).
        new_confirmed (filter (\<lambda>r. group_cols r = g) (daily_data td) ! i) =
          (if i = 0 then 0
           else max 0 (confirmed (filter (\<lambda>r. group_cols r = g) (daily_data td) ! i)
                       - confirmed (filter (\<lambda>r. group_cols r = g) (daily_data td) ! (i - 1))))
      \<and> new_deaths (filter (\<lambda>r. group_cols r = g) (daily_data td) ! i) =
          (if i = 0 then 0
           else max 0 (deaths (filter (\<lambda>r. group_cols r = g) (daily_data td) ! i)
                       - deaths (filter (\<lambda>r. group_cols r = g) (daily_data td) ! (i - 1))))
      \<and> new_recovered (filter (\<lambda>r. group_cols r = g) (daily_data td) ! i) =
          (if i = 0 then 0
           else max 0 (recovered (filter (\<lambda>r. group_cols r = g) (daily_data td) ! i)
                       - recovered (filter (\<lambda>r. group_cols r = g) (daily_data td) ! (i - 1)))))"
proof -
  let ?s = "sort_values td"
  let ?P = "\<lambda>r. group_cols r = g"
  let ?z = "zip ?s (zip (new_col confirmed ?s) (zip (new_col deaths ?s) (new_col recovered ?s)))"
  let ?d = "filter ?P (daily_data td)"
  have dd: "daily_data td = map add_new ?z"
    by (simp add: daily_data_def Let_def)
  have grp: "group_cols (add_new q) = group_cols (fst q)" for q
    by (simp add: group_cols_def add_new_def obs.defs)
  have d: "?d = map add_new (filter (\<lambda>q. ?P (fst q)) ?z)"
    by (simp add: dd filter_map comp_def grp)
  have trunc: "map obs.truncate (daily_data td) = ?s"
  proof -
    have "map obs.truncate (daily_data td) = map fst ?z"
      by (simp add: dd comp_def truncate_add_new)
    then show ?thesis by simp
  qed
  have rows: "map obs.truncate ?d = filter ?P ?s"
  proof -
    have "map obs.truncate ?d = map fst (filter (\<lambda>q. ?P (fst q)) ?z)"
      by (simp add: d comp_def truncate_add_new)
    also have "\<dots> = filter ?P ?s"
      by (rule filter_zip_fst) simp
    finally show ?thesis .
  qed
  have len: "length ?d = length (filter ?P ?s)"
    using arg_cong [OF rows, of length] by simp
  have srt: "sorted (map date ?d)"
  proof -
    have "sorted (map sort_cols ?s)" by (simp add: sort_values_def)
    then have "sorted (map sort_cols (filter ?P ?s))"
      by (simp add: sorted_filter)
    then have "sorted (map date (filter ?P ?s))"
      by (rule sorted_group_dates [where g = g]) simp
    moreover have "map date ?d = map date (map obs.truncate ?d)"
      by (simp add: comp_def obs.defs)
    ultimately show ?thesis by (simp only: rows)
  qed
  have fld: "map confirmed ?d = map confirmed (filter ?P ?s)"
    "map deaths ?d = map deaths (filter ?P ?s)"
    "map recovered ?d = map recovered (filter ?P ?s)"
    using arg_cong [OF rows, of "map confirmed"] arg_cong [OF rows, of "map deaths"]
      arg_cong [OF rows, of "map recovered"]
    by (simp_all add: comp_def obs.defs)
  have nc: "map new_confirmed ?d =
      map (\<lambda>d. clip_lower 0 (fillna 0 d)) (diffs_from None (map confirmed ?d))"
  proof -
    have "map new_confirmed ?d = map (\<lambda>q. fst (snd q)) (filter (\<lambda>q. ?P (fst q)) ?z)"
      by (simp add: d comp_def add_new_def obs.defs)
    also have "\<dots> = map snd (filter (\<lambda>q. ?P (fst q)) (zip ?s (new_col confirmed ?s)))"
      using filter_zip_map_snd [of "zip (new_col confirmed ?s) (zip (new_col deaths ?s) (new_col recovered ?s))"
          ?s fst ?P]
      by (simp add: zip3_cols)
    finally show ?thesis by (simp only: new_col_group fld)
  qed
  have nd: "map new_deaths ?d =
      map (\<lambda>d. clip_lower 0 (fillna 0 d)) (diffs_from None (map deaths ?d))"
  proof -
    have "map new_deaths ?d = map (\<lambda>q. fst (snd (snd q))) (filter (\<lambda>q. ?P (fst q)) ?z)"
      by (simp add: d comp_def add_new_def obs.defs)
    also have "\<dots> = map snd (filter (\<lambda>q. ?P (fst q)) (zip ?s (new_col deaths ?s)))"
      using filter_zip_map_snd [of "zip (new_col confirmed ?s) (zip (new_col deaths ?s) (new_col recovered ?s))"
          ?s "\<lambda>t. fst (snd t)" ?P]
      by (simp add: zip3_cols)
    finally show ?thesis by (simp only: new_col_group fld)
  qed
  have nr: "map new_recovered ?d =
      map (\<lambda>d. clip_lower 0 (fillna 0 d)) (diffs_from None (map recovered ?d))"
  proof -
    have "map new_recovered ?d = map (\<lambda>q. snd (snd (snd q))) (filter (\<lambda>q. ?P (fst q)) ?z)"
      by (simp add: d comp_def add_new_def obs.defs)
    also have "\<dots> = map snd (filter (\<lambda>q. ?P (fst q)) (zip ?s (new_col recovered ?s)))"
      using filter_zip_map_snd [of "zip (new_col confirmed ?s) (zip (new_col deaths ?s) (new_col recovered ?s))"
          ?s "\<lambda>t. snd (snd t)" ?P]
      by (simp add: zip3_cols)
    finally show ?thesis by (simp only: new_col_group fld)
  qed
  have step: "f (?d ! i) = (if i = 0 then 0 else max 0 (c (?d ! i) - c (?d ! (i - 1))))"
    if i: "i < length ?d"
      and m: "map f ?d = map (\<lambda>d. clip_lower 0 (fillna 0 d)) (diffs_from None (map c ?d))"
    for i and f c :: "daily_row \<Rightarrow> int"
  proof -
    have "f (?d ! i) = map f ?d ! i" using i by simp
    also have "\<dots> = map (\<lambda>d. clip_lower 0 (fillna 0 d)) (diffs_from None (map c ?d)) ! i"
      by (simp only: m)
    also have "\<dots> = (if i = 0 then 0 else max 0 (map c ?d ! i - map c ?d ! (i - 1)))"
      using i by (subst diffs_nth) simp_all
    finally show ?thesis using i by simp
  qed
  show ?thesis
    using trunc srt step [OF _ nc] step [OF _ nd] step [OF _ nr] by blast
qed

theorem daily_first_difference_witness:
  "map confirmed (filter (\<lambda>r. group_cols r = (''A'', ''Unknown'')) (daily_data ex_observations))
     = [10, 15, 12]
   \<and> new_confirmed (filter (\<lambda>r. group_cols r = (''A'', ''Unknown'')) (daily_data ex_observations) ! 0) = 0
   \<and> new_confirmed (filter (\<lambda>r. group_cols r = (''A'', ''Unknown'')) (daily_data ex_observations) ! 1) = 5
   \<and> new_confirmed (filter (\<lambda>r. group_cols r = (''A'', ''Unknown'')) (daily_data ex_observations) ! 2) = 0"
proof -
  let ?s = "filter (\<lambda>r. group_cols r = (''A'', ''Unknown'')) (daily_data ex_observations)"
  have v: "map confirmed ?s = [10, 15, 12]" by code_simp
  have len: "length ?s = 3" by code_simp
  have c: "confirmed (?s ! 0) = 10" "confirmed (?s ! 1) = 15" "confirmed (?s ! 2) = 12"
    by code_simp+
  from daily_first_difference [of ex_observations "(''A'', ''Unknown'')"]
  have d: "\<forall>i < length ?s. new_confirmed (?s ! i) =
             (if i = 0 then 0 else max 0 (confirmed (?s ! i) - confirmed (?s ! (i - 1))))"
    by blast
  have "new_confirmed (?s ! 0) = 0" using d len by simp
  moreover have "new_confirmed (?s ! 1) = 5" using d len c by simp
  moreover have "new_confirmed (?s ! 2) = 0" using d len c by simp
  ultimately show ?thesis using v by simp
qed

section \<open>Properties of the extract stage and of the orchestration\<close>

lemma extract_not_true: "fst (extract_data cfg sc rs now fs) \<noteq> PyBool True"
  by (simp add: extract_data_def Let_def split: option.splits)

lemma run_pipeline_stops:
  "fst (run_pipeline e fs st) = Some False \<and> snd (snd (run_pipeline e fs st)) = st"
  using extract_not_true [of None "scripts_config e" "responses e" "clock e" fs]
  by (cases "fst (extract_data None (scripts_config e) (responses e) (clock e) fs)")
     (simp_all add: run_pipeline_def Let_def truthy_def)

lemma download_processed: "processed_csv (fst (download rs acc c)) = processed_csv (fst acc)"
  by (simp add: download_def Let_def split: response.splits sum.splits)

lemma foldl_download_processed:
  "processed_csv (fst (foldl (download rs) acc cats)) = processed_csv (fst acc)"
  by (induction cats arbitrary: acc) (simp_all add: download_processed)

lemma extract_keeps_processed:
  "processed_csv (snd (extract_data cfg sc rs now fs)) = processed_csv fs"
  by (simp add: extract_data_def Let_def foldl_download_processed split: option.splits)

text \<open>
  Claim C3 (the code departs from it). \<^verbatim>\<open>extract_data\<close> never returns True: it returns
  False when it has no configuration and None otherwise, however many downloads it
  counted. \<^verbatim>\<open>run_pipeline\<close> tests the value with \<^verbatim>\<open>if not extract_success\<close>, so it
  returns False after the extract stage on every run, with the processed files and the
  store as they were. At the example input all three downloads are counted (3 of 3 in
  the metadata file) and the value is None.
\<close>

theorem extract_data_never_true:
  "fst (extract_data cfg sc rs now fs) \<noteq> PyBool True
   \<and> fst (run_pipeline e fs st) = Some False
   \<and> snd (snd (run_pipeline e fs st)) = st
   \<and> processed_csv (fst (snd (run_pipeline e fs st))) = processed_csv fs
   \<and> fst (extract_data (Some ex_config) None ex_responses 7 no_files) = PyNone
   \<and> extraction_metadata (snd (extract_data (Some ex_config) None ex_responses 7 no_files))
       = Some (7, 3, 3)"
proof -
  have "processed_csv (fst (snd (run_pipeline e fs st))) = processed_csv fs"
    using extract_not_true [of None "scripts_config e" "responses e" "clock e" fs]
      extract_keeps_processed [of None "scripts_config e" "responses e" "clock e" fs]
    by (cases "fst (extract_data None (scripts_config e) (responses e) (clock e) fs)")
       (simp_all add: run_pipeline_def Let_def truthy_def)
  moreover have "fst (extract_data (Some ex_config) None ex_responses 7 no_files) = PyNone"
    by code_simp
  moreover have
    "extraction_metadata (snd (extract_data (Some ex_config) None ex_responses 7 no_files))
       = Some (7, 3, 3)"
    by code_simp
  ultimately show ?thesis
    using extract_not_true [of cfg sc rs now fs] run_pipeline_stops [of e fs st] by simp
qed

section \<open>Properties of the transform stage as a whole\<close>

lemma read_datasets_raises:
  "cat \<in> set cats \<Longrightarrow> raw cat = Some content \<Longrightarrow> read_csv content = Inl err
   \<Longrightarrow> \<exists>e. read_datasets raw cats datasets = Inl e"
proof (induction cats arbitrary: datasets)
  case Nil
  then show ?case by simp
next
  case (Cons c cats)
  show ?case
  proof (cases "c = cat")
    case True
    with Cons.prems show ?thesis by (simp add: read_category_def)
  next
    case False
    with Cons.prems have "cat \<in> set cats" by simp
    from Cons.IH [OF this Cons.prems(2,3)] show ?thesis
      by (auto split: option.splits sum.splits)
  qed
qed

lemma category_listed: "cat \<in> set categories"
  by (cases cat) (simp_all add: categories_def)

lemma transform_unreadable:
  assumes "raw_csv fs cat = Some content" and "read_csv content = Inl err"
  shows "transform_data cfg sc now fs = (False, fs)"
proof -
  obtain e where "read_datasets (raw_csv fs) categories Map.empty = Inl e"
    using read_datasets_raises [of cat categories "raw_csv fs" content err Map.empty]
      category_listed [of cat] assms by blast
  then show ?thesis by (simp add: transform_data_def split: option.splits)
qed

lemma download_raw:
  "raw_csv (fst (download rs acc c)) =
   (case rs c of RequestFailed \<Rightarrow> raw_csv (fst acc) | Body b \<Rightarrow> (raw_csv (fst acc))(c \<mapsto> b))"
  by (simp add: download_def Let_def split: response.splits sum.splits)

lemma foldl_download_raw:
  "distinct cats \<Longrightarrow>
   raw_csv (fst (foldl (download rs) acc cats)) cat =
   (if cat \<in> set cats
    then (case rs cat of RequestFailed \<Rightarrow> raw_csv (fst acc) cat | Body b \<Rightarrow> Some b)
    else raw_csv (fst acc) cat)"
proof (induction cats arbitrary: acc)
  case Nil
  then show ?case by simp
next
  case (Cons c cats)
  then show ?case
    by (auto simp: download_raw split: response.splits)
qed

lemma extract_leaves_body:
  assumes "rs cat = Body content" and "resolve_config cfg sc \<noteq> None"
  shows "raw_csv (snd (extract_data cfg sc rs now fs)) cat = Some content"
proof -
  have "distinct categories" by (simp add: categories_def)
  from foldl_download_raw [OF this, of rs "(fs, 0)" cat] assms(1) category_listed [of cat]
  have "raw_csv (fst (foldl (download rs) (fs, 0) categories)) cat = Some content"
    by simp
  then show ?thesis using assms(2)
    by (auto simp: extract_data_def Let_def)
qed

lemma transform_reads_raw_only:
  "raw_csv fs' = raw_csv fs \<Longrightarrow>
   fst (transform_data cfg sc t2 fs') = fst (transform_data cfg sc t1 fs)
   \<and> (fst (transform_data cfg sc t1 fs) \<longrightarrow>
        (\<forall>f \<in> set (map fst files_to_load).
           processed_csv (snd (transform_data cfg sc t2 fs')) f
             = processed_csv (snd (transform_data cfg sc t1 fs)) f))"
  by (simp add: transform_data_def Let_def files_to_load_def split: option.splits sum.splits)

lemma transform_keeps_raw: "raw_csv (snd (transform_data cfg sc t fs)) = raw_csv fs"
  by (simp add: transform_data_def Let_def split: option.splits sum.splits)

lemma transform_twice:
  "fst (transform_data cfg sc t2 (snd (transform_data cfg sc t1 fs))) = fst (transform_data cfg sc t1 fs)
   \<and> processed_csv (snd (transform_data cfg sc t2 (snd (transform_data cfg sc t1 fs))))
       = processed_csv (snd (transform_data cfg sc t1 fs))"
  by (simp add: transform_data_def Let_def split: option.splits sum.splits)


lemma extract_raw:
  "raw_csv (snd (extract_data cfg sc rs now fs)) cat =
   (case resolve_config cfg sc of
      None \<Rightarrow> raw_csv fs cat
    | Some c \<Rightarrow> (case rs cat of RequestFailed \<Rightarrow> raw_csv fs cat | Body b \<Rightarrow> Some b))"
proof -
  have "distinct categories" by (simp add: categories_def)
  from foldl_download_raw [OF this, of rs "(fs, 0)" cat] category_listed [of cat]
  show ?thesis
    by (simp add: extract_data_def Let_def split: option.splits response.splits)
qed

lemma extract_again:
  assumes "raw_csv fs' = raw_csv (snd (extract_data cfg sc rs n1 fs))"
  shows "raw_csv (snd (extract_data cfg sc rs n2 fs')) = raw_csv (snd (extract_data cfg sc rs n1 fs))"
proof
  fix cat
  show "raw_csv (snd (extract_data cfg sc rs n2 fs')) cat
        = raw_csv (snd (extract_data cfg sc rs n1 fs)) cat"
    unfolding extract_raw [of cfg sc rs n2 fs' cat] assms
    by (simp add: extract_raw split: option.splits response.splits)
qed

lemma reshape_ok:
  assumes "\<forall>h \<in> set (map fst (value_cols wt)). strptime_mdy h \<noteq> None"
  shows "\<exists>f. reshape cat wt = Inr f"
proof -
  have "\<forall>r \<in> set (long_rows (melt wt (category_name cat))). strptime_mdy (l_date r) \<noteq> None"
    using assms melt_dates [of _ wt "category_name cat"] by blast
  from to_datetime_ok [OF this] show ?thesis
    by (simp add: reshape_def Let_def)
qed

lemma transform_confirmed_only:
  assumes cfg: "resolve_config cfg sc \<noteq> None"
    and c: "raw_csv fs Confirmed = Some (Csv (Wide wt))"
    and h: "\<forall>h \<in> set (map fst (value_cols wt)). strptime_mdy h \<noteq> None"
    and d: "raw_csv fs Deaths = None" and r: "raw_csv fs Recovered = None"
  shows "fst (transform_data cfg sc now fs) = True"
proof -
  from reshape_ok [OF h, of Confirmed] obtain f where f: "reshape Confirmed wt = Inr f"
    by blast
  have "read_datasets (raw_csv fs) categories Map.empty = Inr [Confirmed \<mapsto> f]"
    by (simp add: categories_def c d r read_category_def f)
  then show ?thesis using cfg
    by (auto simp: transform_data_def Let_def)
qed

lemma melt_has_header:
  assumes "(h, col) \<in> set (value_cols wt)" and "ids wt \<noteq> []" and "col \<noteq> []"
  shows "\<exists>r \<in> set (long_rows (melt wt v)). l_date r = h"
proof -
  from assms(2,3) obtain p where p: "p \<in> set (zip (ids wt) col)"
    by (cases "ids wt"; cases col) auto
  have "melt_row h p \<in> set (long_rows (melt wt v))"
    using assms(1) p by (force simp: melt_def)
  moreover have "l_date (melt_row h p) = h" by (simp add: melt_row_def)
  ultimately show ?thesis by blast
qed

lemma reshape_bad_header:
  assumes "(h, col) \<in> set (value_cols wt)" and "ids wt \<noteq> []" and "col \<noteq> []"
    and "strptime_mdy h = None"
  shows "reshape cat wt = Inl ValueError"
proof -
  from melt_has_header [OF assms(1-3), of "category_name cat"] assms(4)
  obtain r where "r \<in> set (long_rows (melt wt (category_name cat)))"
    and "strptime_mdy (l_date r) = None" by auto
  from to_datetime_fail [OF this] show ?thesis
    by (simp add: reshape_def Let_def)
qed

lemma read_datasets_stops:
  "cat \<in> set cats \<Longrightarrow> raw cat = Some content \<Longrightarrow> read_category content cat = Inl err
   \<Longrightarrow> \<exists>e. read_datasets raw cats datasets = Inl e"
proof (induction cats arbitrary: datasets)
  case Nil
  then show ?case by simp
next
  case (Cons c cats)
  show ?case
  proof (cases "c = cat")
    case True
    with Cons.prems show ?thesis by simp
  next
    case False
    with Cons.prems have "cat \<in> set cats" by simp
    from Cons.IH [OF this Cons.prems(2,3)] show ?thesis
      by (auto split: option.splits sum.splits)
  qed
qed

text \<open>
  A date header that does not parse is a hard error: when the raw file of a category is
  a table with at least one row and one of its value columns has such a header,
  \<^verbatim>\<open>transform_data\<close> returns False and writes nothing.
\<close>

theorem bad_date_header_fails_transform:
  "raw_csv fs cat = Some (Csv (Wide wt)) \<and> (h, col) \<in> set (value_cols wt)
   \<and> ids wt \<noteq> [] \<and> col \<noteq> [] \<and> strptime_mdy h = None \<longrightarrow>
   transform_data cfg sc now fs = (False, fs)"
proof
  assume a: "raw_csv fs cat = Some (Csv (Wide wt)) \<and> (h, col) \<in> set (value_cols wt)
   \<and> ids wt \<noteq> [] \<and> col \<noteq> [] \<and> strptime_mdy h = None"
  then have "reshape cat wt = Inl ValueError"
    using reshape_bad_header [of h col wt cat] by simp
  then have "read_category (Csv (Wide wt)) cat = Inl ValueError"
    by (simp add: read_category_def)
  with a obtain e where "read_datasets (raw_csv fs) categories Map.empty = Inl e"
    using read_datasets_stops [of cat categories "raw_csv fs" "Csv (Wide wt)" ValueError Map.empty]
      category_listed [of cat] by blast
  then show "transform_data cfg sc now fs = (False, fs)"
    by (simp add: transform_data_def split: option.splits)
qed

theorem bad_date_header_fails_transform_witness:
  "strptime_mdy ''2020-01-22'' = None
   \<and> transform_data (Some ex_config) None 8 ex_iso_files = (False, ex_iso_files)"
proof -
  have 1: "strptime_mdy ''2020-01-22'' = None" by code_simp
  have 2: "raw_csv ex_iso_files Confirmed = Some (Csv (Wide ex_iso_wide))"
    by (simp add: ex_iso_files_def)
  have 3: "(''2020-01-22'', [10]) \<in> set (value_cols ex_iso_wide)" "ids ex_iso_wide \<noteq> []"
    by (simp_all add: ex_iso_wide_def)
  from bad_date_header_fails_transform
    [where fs = ex_iso_files and cat = Confirmed and wt = ex_iso_wide and h = "''2020-01-22''"
      and col = "[10]" and cfg = "Some ex_config" and sc = None and now = 8] 1 2 3
  show ?thesis by simp
qed

text \<open>
  Claim C9. \<^verbatim>\<open>extract_data\<close> leaves the body of a response on disk whatever it is, also
  when it is empty or does not parse. If the raw file of any category exists and is empty
  or does not parse, \<^verbatim>\<open>transform_data\<close> returns False and writes nothing. A raw file
  that does not exist is skipped: with a confirmed file whose headers are dates and no
  files for deaths and recovered, \<^verbatim>\<open>transform_data\<close> returns True.
\<close>

theorem unreadable_raw_file_fails_transform:
  "(rs cat = Body content \<and> resolve_config cfg sc \<noteq> None \<longrightarrow>
      raw_csv (snd (extract_data cfg sc rs now fs)) cat = Some content)
   \<and> (raw_csv fs cat = Some content \<and> (content = NoBytes \<or> content = Garbage) \<longrightarrow>
      transform_data cfg sc now fs = (False, fs))
   \<and> (resolve_config cfg sc \<noteq> None \<and> raw_csv fs Confirmed = Some (Csv (Wide wt))
      \<and> (\<forall>h \<in> set (map fst (value_cols wt)). strptime_mdy h \<noteq> None)
      \<and> raw_csv fs Deaths = None \<and> raw_csv fs Recovered = None \<longrightarrow>
      fst (transform_data cfg sc now fs) = True)"
proof (intro conjI impI)
  assume "rs cat = Body content \<and> resolve_config cfg sc \<noteq> None"
  then show "raw_csv (snd (extract_data cfg sc rs now fs)) cat = Some content"
    using extract_leaves_body [of rs cat content cfg sc now fs] by simp
next
  assume a: "raw_csv fs cat = Some content \<and> (content = NoBytes \<or> content = Garbage)"
  then have "\<exists>err. read_csv content = Inl err" by auto
  then obtain err where "read_csv content = Inl err" by blast
  with a show "transform_data cfg sc now fs = (False, fs)"
    using transform_unreadable [of fs cat content err cfg sc now] by simp
next
  assume "resolve_config cfg sc \<noteq> None \<and> raw_csv fs Confirmed = Some (Csv (Wide wt))
      \<and> (\<forall>h \<in> set (map fst (value_cols wt)). strptime_mdy h \<noteq> None)
      \<and> raw_csv fs Deaths = None \<and> raw_csv fs Recovered = None"
  then show "fst (transform_data cfg sc now fs) = True"
    using transform_confirmed_only [of cfg sc fs wt now] by simp
qed

theorem unreadable_raw_file_fails_transform_witness:
  "ex_empty_deaths Deaths = Body NoBytes
   \<and> raw_csv (snd (extract_data (Some ex_config) None ex_empty_deaths 7 no_files)) Deaths
       = Some NoBytes
   \<and> fst (transform_data (Some ex_config) None 8
           (snd (extract_data (Some ex_config) None ex_empty_deaths 7 no_files))) = False
   \<and> raw_csv ex_confirmed_only Deaths = None
   \<and> fst (transform_data (Some ex_config) None 8 ex_confirmed_only) = True"
proof -
  let ?fs = "snd (extract_data (Some ex_config) None ex_empty_deaths 7 no_files)"
  have b: "ex_empty_deaths Deaths = Body NoBytes" by (simp add: ex_empty_deaths_def)
  have c: "resolve_config (Some ex_config) None \<noteq> None" by (simp add: resolve_config_def)
  have 1: "raw_csv ?fs Deaths = Some NoBytes"
    using unreadable_raw_file_fails_transform
      [where rs = ex_empty_deaths and cat = Deaths and content = NoBytes
        and cfg = "Some ex_config" and sc = None and now = 7 and fs = no_files] b c
    by blast
  have 2: "transform_data (Some ex_config) None 8 ?fs = (False, ?fs)"
    using unreadable_raw_file_fails_transform
      [where cat = Deaths and content = NoBytes and cfg = "Some ex_config" and sc = None
        and now = 8 and fs = ?fs] 1
    by blast
  have r: "raw_csv ex_confirmed_only Confirmed = Some (Csv (Wide ex_confirmed_wide))"
    "raw_csv ex_confirmed_only Deaths = None" "raw_csv ex_confirmed_only Recovered = None"
    by (simp_all add: ex_confirmed_only_def)
  have h: "\<forall>h \<in> set (map fst (value_cols ex_confirmed_wide)). strptime_mdy h \<noteq> None"
    by code_simp
  have 3: "fst (transform_data (Some ex_config) None 8 ex_confirmed_only) = True"
    using unreadable_raw_file_fails_transform
      [where cfg = "Some ex_config" and sc = None and now = 8 and fs = ex_confirmed_only
        and wt = ex_confirmed_wide] c r h
    by blast
  from b 1 2 r(2) 3 show ?thesis by simp
qed

section \<open>Properties of the load stage\<close>

lemma state_of_simps [simp]:
  "state_of (Done s) = s" "state_of (Failed s) = s" "state_of (Stuck s) = s"
  by (simp_all add: state_of_def)

lemma and_then_state:
  assumes "P (state_of r)" and "\<And>s'. r = Done s' \<Longrightarrow> P (state_of (f s'))"
  shows "P (state_of (and_then r f))"
  using assms by (cases r) (simp_all add: and_then_def)

lemma and_then_Done:
  "and_then r f = Done s'' \<Longrightarrow> \<exists>s'. r = Done s' \<and> f s' = Done s''"
  by (cases r) (simp_all add: and_then_def)

lemma keeps_refl: "keeps t s s"
  by (simp add: keeps_def)

lemma keeps_trans: "keeps t s s1 \<Longrightarrow> keeps t s1 s2 \<Longrightarrow> keeps t s s2"
  by (simp add: keeps_def)

lemma and_then_keeps:
  assumes "keeps t s (state_of r)"
    and "\<And>s'. r = Done s' \<Longrightarrow> keeps t s' (state_of (f s'))"
  shows "keeps t s (state_of (and_then r f))"
proof (rule and_then_state)
  show "keeps t s (state_of r)" by fact
next
  fix s' assume d: "r = Done s'"
  with assms(1) have "keeps t s s'" by simp
  then show "keeps t s (state_of (f s'))" using assms(2) [OF d] by (rule keeps_trans)
qed

lemma drop_table_keeps: "t' \<noteq> t \<Longrightarrow> keeps t s (state_of (drop_table raises t' s))"
  by (simp add: drop_table_def keeps_def)

lemma to_sql_keeps: "t' \<noteq> t \<Longrightarrow> keeps t s (state_of (to_sql raises t' df s))"
  by (simp add: to_sql_def keeps_def)

lemma count_rows_keeps: "keeps t s (state_of (count_rows raises t' s))"
  by (simp add: count_rows_def keeps_def split: option.splits relation.splits)

lemma load_file_keeps:
  "snd entry = t \<longrightarrow> processed (fst entry) = None \<Longrightarrow>
   keeps t s (state_of (load_file raises processed entry s))"
proof (cases "processed (fst entry)")
  case None
  then show ?thesis by (simp add: load_file_def keeps_refl)
next
  case (Some df)
  assume "snd entry = t \<longrightarrow> processed (fst entry) = None"
  with Some have ne: "snd entry \<noteq> t" by auto
  show ?thesis
    unfolding load_file_def Some option.case
    by (intro and_then_keeps drop_table_keeps to_sql_keeps count_rows_keeps ne)
qed

lemma load_files_keeps:
  "\<forall>entry \<in> set entries. snd entry = t \<longrightarrow> processed (fst entry) = None \<Longrightarrow>
   keeps t s (state_of (load_files raises processed entries s))"
proof (induction entries arbitrary: s)
  case Nil
  then show ?case by (simp add: keeps_refl)
next
  case (Cons entry entries)
  show ?case
    unfolding load_files.simps
  proof (rule and_then_keeps)
    show "keeps t s (state_of (load_file raises processed entry s))"
      using Cons.prems by (intro load_file_keeps) simp
  next
    fix s'
    show "keeps t s' (state_of (load_files raises processed entries s'))"
      using Cons.prems by (intro Cons.IH) simp
  qed
qed

lemma create_view_keeps: "keeps t s (state_of (create_view raises v t' s))"
  by (simp add: create_view_def keeps_def)

lemma create_index_keeps: "keeps t s (state_of (create_index raises i t' s))"
  by (simp add: create_index_def keeps_def)

lemma create_analytical_views_keeps: "keeps t s (state_of (create_analytical_views raises s))"
  unfolding create_analytical_views_def
  by (intro and_then_keeps create_view_keeps)

lemma create_indexes_keeps: "keeps t s (state_of (create_indexes raises s))"
  unfolding create_indexes_def
  by (intro and_then_keeps create_index_keeps)

lemma insert_metadata_keeps:
  "t \<noteq> ''etl_metadata'' \<Longrightarrow> keeps t s (state_of (insert_metadata raises now s))"
  by (simp add: insert_metadata_def keeps_def split: option.splits relation.splits)

lemma create_index_Done:
  "create_index raises i t s = Done s' \<Longrightarrow> relations (db s) t \<noteq> None"
  by (simp add: create_index_def split: if_splits)

lemma create_indexes_Done:
  assumes "create_indexes raises s = Done s'"
  shows "relations (db s) ''full_data'' \<noteq> None
       \<and> relations (db s) ''country_summary'' \<noteq> None
       \<and> relations (db s) ''daily_changes'' \<noteq> None"
proof -
  from assms obtain s1 s2 s3 s4 where
    1: "create_index raises ''idx_full_country'' ''full_data'' s = Done s1" and
    2: "create_index raises ''idx_full_date'' ''full_data'' s1 = Done s2" and
    3: "create_index raises ''idx_summary_date'' ''country_summary'' s2 = Done s3" and
    4: "create_index raises ''idx_changes_country'' ''daily_changes'' s3 = Done s4"
    unfolding create_indexes_def by (blast dest: and_then_Done)
  have k: "relations (db s3) = relations (db s)"
    using 1 2 3 by (auto simp: create_index_def split: if_splits)
  from create_index_Done [OF 1] create_index_Done [OF 3] create_index_Done [OF 4] k
  show ?thesis
    using 1 2 by (auto simp: create_index_def split: if_splits)
qed

lemma create_database_schema_state:
  "db (state_of (create_database_schema raises s)) = db s"
  by (simp add: create_database_schema_def create_table_if_not_exists_def)

lemma create_table_if_not_exists_step:
  assumes "db u = db s"
    and "\<forall>t. t \<in> set (pending u) \<longrightarrow> t \<in> set (pending s) \<or> relations (db s) t = None"
  shows "db (create_table_if_not_exists t' u) = db s
       \<and> (\<forall>t. t \<in> set (pending (create_table_if_not_exists t' u)) \<longrightarrow>
              t \<in> set (pending s) \<or> relations (db s) t = None)"
  using assms by (auto simp: create_table_if_not_exists_def)

lemma create_database_schema_Done:
  assumes "create_database_schema raises s = Done s1"
  shows "db s1 = db s"
    and "t \<in> set (pending s1) \<Longrightarrow> t \<in> set (pending s) \<or> relations (db s) t = None"
proof -
  let ?P = "\<lambda>u. db u = db s
    \<and> (\<forall>t. t \<in> set (pending u) \<longrightarrow> t \<in> set (pending s) \<or> relations (db s) t = None)"
  from assms have s1: "s1 = create_table_if_not_exists ''daily_changes''
      (create_table_if_not_exists ''country_summary''
        (create_table_if_not_exists ''full_data''
          (create_table_if_not_exists ''etl_metadata'' s)))"
    by (simp add: create_database_schema_def split: if_splits)
  have 0: "?P s" by simp
  have step: "?P (create_table_if_not_exists t' u)" if "?P u" for t' u
    using that create_table_if_not_exists_step [of u s t'] by simp
  have p: "?P s1" unfolding s1 by (intro step 0)
  from p show "db s1 = db s" by simp
  from p show "t \<in> set (pending s) \<or> relations (db s) t = None" if "t \<in> set (pending s1)"
    using that by auto
qed

lemma load_body_rest:
  "load_body raises processed now s =
   and_then (create_database_schema raises s) (load_rest raises processed now)"
  by (simp add: load_body_def load_rest_def [abs_def])

lemma load_rest_keeps:
  assumes "\<forall>entry \<in> set files_to_load. snd entry = t \<longrightarrow> processed (fst entry) = None"
    and "t \<noteq> ''etl_metadata''"
  shows "keeps t s (state_of (load_rest raises processed now s))"
  unfolding load_rest_def
proof (intro and_then_keeps)
  show "keeps t s (state_of (if raises GetEngine then Failed s else Done s))"
    by (simp add: keeps_refl)
next
  fix s' show "keeps t s' (state_of (load_files raises processed files_to_load s'))"
    by (rule load_files_keeps [OF assms(1)])
next
  fix s' show "keeps t s' (state_of (create_analytical_views raises s'))"
    by (rule create_analytical_views_keeps)
next
  fix s' show "keeps t s' (state_of (create_indexes raises s'))"
    by (rule create_indexes_keeps)
next
  fix s' show "keeps t s' (state_of (insert_metadata raises now s'))"
    by (rule insert_metadata_keeps [OF assms(2)])
qed

lemma load_body_keeps:
  assumes "\<forall>entry \<in> set files_to_load. snd entry = t \<longrightarrow> processed (fst entry) = None"
    and "t \<noteq> ''etl_metadata''"
  shows "relations (db (state_of (load_body raises processed now s))) t = relations (db s) t"
proof (cases "create_database_schema raises s")
  case (Done s1)
  have "db s1 = db s" by (rule create_database_schema_Done(1) [OF Done])
  moreover have "keeps t s1 (state_of (load_rest raises processed now s1))"
    by (rule load_rest_keeps [OF assms])
  ultimately show ?thesis
    by (simp add: load_body_rest Done and_then_def keeps_def)
next
  case (Failed s1)
  with create_database_schema_state [of raises s] show ?thesis
    by (simp add: load_body_rest and_then_def)
next
  case (Stuck s1)
  with create_database_schema_state [of raises s] show ?thesis
    by (simp add: load_body_rest and_then_def)
qed

lemma drop_table_Done:
  "drop_table raises t s = Done s' \<Longrightarrow> pending s' = pending s"
  by (auto simp: drop_table_def split: if_splits)

lemma to_sql_Done:
  "to_sql raises t df s = Done s' \<Longrightarrow>
   pending s' = pending s \<and> relations (db s') t = Some (DataTable df) \<and> t \<notin> set (pending s)"
  by (auto simp: to_sql_def split: if_splits)

lemma count_rows_Done:
  "count_rows raises t s = Done s' \<Longrightarrow> pending s' = pending s \<and> db s' = db s"
  by (auto simp: count_rows_def split: if_splits option.splits relation.splits)

lemma load_file_Done:
  assumes "load_file raises processed entry s = Done s'"
  shows "pending s' = pending s"
    and "processed (fst entry) = Some d \<Longrightarrow>
         relations (db s') (snd entry) = Some (DataTable d) \<and> snd entry \<notin> set (pending s)"
proof -
  show "pending s' = pending s"
  proof (cases "processed (fst entry)")
    case None
    with assms show ?thesis by (simp add: load_file_def)
  next
    case (Some df)
    with assms obtain s1 s2 where
      "drop_table raises (snd entry) s = Done s1"
      "to_sql raises (snd entry) df s1 = Done s2"
      "count_rows raises (snd entry) s2 = Done s'"
      unfolding load_file_def by (auto dest!: and_then_Done)
    then show ?thesis
      by (auto dest!: drop_table_Done to_sql_Done count_rows_Done)
  qed
next
  assume d: "processed (fst entry) = Some d"
  with assms obtain s1 s2 where
    "drop_table raises (snd entry) s = Done s1"
    "to_sql raises (snd entry) d s1 = Done s2"
    "count_rows raises (snd entry) s2 = Done s'"
    unfolding load_file_def by (auto dest!: and_then_Done)
  then show "relations (db s') (snd entry) = Some (DataTable d) \<and> snd entry \<notin> set (pending s)"
    by (auto dest!: drop_table_Done to_sql_Done count_rows_Done)
qed

lemma load_files_Done:
  assumes "distinct (map snd entries)" and "load_files raises processed entries s = Done s'"
  shows "pending s' = pending s
       \<and> (\<forall>entry \<in> set entries. \<forall>d. processed (fst entry) = Some d \<longrightarrow>
            relations (db s') (snd entry) = Some (DataTable d) \<and> snd entry \<notin> set (pending s))"
  using assms
proof (induction entries arbitrary: s)
  case Nil
  then show ?case by simp
next
  case (Cons entry entries)
  from Cons.prems(2) obtain s1 where
    1: "load_file raises processed entry s = Done s1" and
    2: "load_files raises processed entries s1 = Done s'"
    by (auto dest!: and_then_Done)
  from Cons.prems(1) have dist: "distinct (map snd entries)" and
    fresh: "\<forall>e \<in> set entries. snd e \<noteq> snd entry"
    by (force simp: image_iff)+
  note ih = Cons.IH [OF dist 2]
  have p1: "pending s1 = pending s" by (rule load_file_Done(1) [OF 1])
  have "keeps (snd entry) s1 (state_of (load_files raises processed entries s1))"
    using fresh by (intro load_files_keeps) auto
  then have k: "relations (db s') (snd entry) = relations (db s1) (snd entry)"
    by (simp add: 2 keeps_def)
  show ?case
  proof (intro conjI ballI allI impI)
    show "pending s' = pending s" using ih p1 by simp
  next
    fix e d assume e: "e \<in> set (entry # entries)" and d: "processed (fst e) = Some d"
    show "relations (db s') (snd e) = Some (DataTable d)"
    proof (cases "e = entry")
      case True
      with load_file_Done(2) [OF 1] d k show ?thesis by simp
    next
      case False
      with e ih d show ?thesis by auto
    qed
  next
    fix e d assume e: "e \<in> set (entry # entries)" and d: "processed (fst e) = Some d"
    show "snd e \<notin> set (pending s)"
    proof (cases "e = entry")
      case True
      with load_file_Done(2) [OF 1] d show ?thesis by simp
    next
      case False
      with e ih d p1 show ?thesis by auto
    qed
  qed
qed

lemma after_load_keeps:
  assumes "t \<noteq> ''etl_metadata''"
  shows "keeps t s (state_of (
           and_then (create_analytical_views raises s) (\<lambda>s4.
           and_then (create_indexes raises s4) (\<lambda>s5.
           insert_metadata raises now s5))))"
  by (intro and_then_keeps create_analytical_views_keeps create_indexes_keeps
      insert_metadata_keeps assms)

lemma files_to_load_tables:
  "distinct (map snd files_to_load)"
  "entry \<in> set files_to_load \<Longrightarrow> snd entry \<noteq> ''etl_metadata''"
  "entry \<in> set files_to_load \<Longrightarrow>
     snd entry = ''full_data'' \<or> snd entry = ''country_summary'' \<or> snd entry = ''daily_changes''"
  "entry \<in> set files_to_load \<Longrightarrow> e \<in> set files_to_load \<Longrightarrow> snd e = snd entry \<Longrightarrow> e = entry"
  by (auto simp: files_to_load_def)

lemma load_rest_Done:
  assumes "load_rest raises processed now s = Done s'"
  shows "pending s' = pending s"
    and "relations (db s') ''full_data'' \<noteq> None \<and> relations (db s') ''country_summary'' \<noteq> None
         \<and> relations (db s') ''daily_changes'' \<noteq> None"
    and "entry \<in> set files_to_load \<Longrightarrow> processed (fst entry) = Some d \<Longrightarrow>
         relations (db s') (snd entry) = Some (DataTable d) \<and> snd entry \<notin> set (pending s)"
    and "entry \<in> set files_to_load \<Longrightarrow> processed (fst entry) = None \<Longrightarrow>
         relations (db s') (snd entry) = relations (db s) (snd entry)"
proof -
  have e: "\<not> raises GetEngine"
    using assms by (auto simp: load_rest_def and_then_def split: if_splits)
  with assms have a: "and_then (load_files raises processed files_to_load s) (\<lambda>s3.
     and_then (create_analytical_views raises s3) (\<lambda>s4.
     and_then (create_indexes raises s4) (\<lambda>s5.
     insert_metadata raises now s5))) = Done s'"
    by (simp add: load_rest_def and_then_def)
  from and_then_Done [OF a] obtain s3 where
    3: "load_files raises processed files_to_load s = Done s3" and
    b: "and_then (create_analytical_views raises s3) (\<lambda>s4.
     and_then (create_indexes raises s4) (\<lambda>s5.
     insert_metadata raises now s5)) = Done s'"
    by blast
  from and_then_Done [OF b] obtain s4 where
    4: "create_analytical_views raises s3 = Done s4" and
    r: "and_then (create_indexes raises s4) (\<lambda>s5. insert_metadata raises now s5) = Done s'"
    by blast
  from and_then_Done [OF r] obtain s5 where
    5: "create_indexes raises s4 = Done s5" and
    6: "insert_metadata raises now s5 = Done s'"
    by blast
  have tail: "keeps t s3 s'" if "t \<noteq> ''etl_metadata''" for t
    using after_load_keeps [OF that, of s3 raises now] b
    by simp
  have k4: "keeps t s3 s4" for t
    using create_analytical_views_keeps [of t s3 raises] 4 by simp
  have k5: "keeps t s4 s5" for t
    using create_indexes_keeps [of t s4 raises] 5 by simp
  have k6: "keeps t s5 s'" if "t \<noteq> ''etl_metadata''" for t
    using insert_metadata_keeps [OF that, of s5 raises now] 6 by simp
  note lf = load_files_Done [OF files_to_load_tables(1) 3]
  show "pending s' = pending s"
    using lf tail [of "''full_data''"] by (simp add: keeps_def)
  from create_indexes_Done [OF 5] k5 k6
  show "relations (db s') ''full_data'' \<noteq> None \<and> relations (db s') ''country_summary'' \<noteq> None
         \<and> relations (db s') ''daily_changes'' \<noteq> None"
    by (simp add: keeps_def)
  show "relations (db s') (snd entry) = Some (DataTable d) \<and> snd entry \<notin> set (pending s)"
    if en: "entry \<in> set files_to_load" and d: "processed (fst entry) = Some d"
  proof -
    from lf en d have "relations (db s3) (snd entry) = Some (DataTable d)"
      and "snd entry \<notin> set (pending s)" by auto
    with tail [OF files_to_load_tables(2) [OF en]] show ?thesis
      by (simp add: keeps_def)
  qed
  show "relations (db s') (snd entry) = relations (db s) (snd entry)"
    if en: "entry \<in> set files_to_load" and d: "processed (fst entry) = None"
  proof -
    have "\<forall>e \<in> set files_to_load. snd e = snd entry \<longrightarrow> processed (fst e) = None"
      using files_to_load_tables(4) [OF en] d by auto
    from load_rest_keeps [OF this files_to_load_tables(2) [OF en], of s raises now] assms
    show ?thesis by (simp add: keeps_def)
  qed
qed

lemma fold_upd_other:
  "t \<notin> set ts \<Longrightarrow> fold (\<lambda>t m. m(t \<mapsto> e t)) ts m t = m t"
  by (induction ts arbitrary: m) auto

lemma commit_other:
  "t \<notin> set (pending s) \<Longrightarrow> relations (db (commit s)) t = relations (db s) t"
  by (simp add: commit_def fold_upd_other)

lemma load_body_Done:
  assumes "load_body raises processed now \<lparr>db = st, pending = [], rows_loaded = 0\<rparr> = Done s"
    and en: "entry \<in> set files_to_load"
  shows "relations (db (commit s)) (snd entry) =
         (case processed (fst entry) of Some d \<Rightarrow> Some (DataTable d)
          | None \<Rightarrow> relations st (snd entry))"
proof -
  let ?s0 = "\<lparr>db = st, pending = [], rows_loaded = 0\<rparr>"
  from assms(1) obtain s1 where
    1: "create_database_schema raises ?s0 = Done s1" and
    2: "load_rest raises processed now s1 = Done s"
    unfolding load_body_rest by (auto dest!: and_then_Done)
  have db1: "db s1 = st" using create_database_schema_Done(1) [OF 1] by simp
  have p1: "t \<in> set (pending s1) \<Longrightarrow> relations st t = None" for t
    using create_database_schema_Done(2) [OF 1, of t] by simp
  note r = load_rest_Done [OF 2]
  show ?thesis
  proof (cases "processed (fst entry)")
    case (Some d)
    from r(3) [OF en Some] r(1) show ?thesis
      by (simp add: Some commit_other)
  next
    case None
    have same: "relations (db s) (snd entry) = relations st (snd entry)"
      using r(4) [OF en None] db1 by simp
    have "relations (db s) (snd entry) \<noteq> None"
      using r(2) files_to_load_tables(3) [OF en] by auto
    with same have "relations st (snd entry) \<noteq> None" by simp
    with p1 [of "snd entry"] have "snd entry \<notin> set (pending s1)" by blast
    with r(1) same show ?thesis by (simp add: None commit_other)
  qed
qed

lemma load_data_success:
  assumes "load_data cfg sc raises now fs st = (Returned True, st')"
    and "entry \<in> set files_to_load"
  shows "relations st' (snd entry) =
         (case processed_csv fs (fst entry) of Some d \<Rightarrow> Some (DataTable d)
          | None \<Rightarrow> relations st (snd entry))"
proof -
  from assms(1) obtain s where
    "load_body raises (processed_csv fs) now \<lparr>db = st, pending = [], rows_loaded = 0\<rparr> = Done s"
    and "st' = db (commit s)"
    by (auto simp: load_data_def on_exception_def
        split: option.splits if_splits step_result.splits)
  with load_body_Done [OF this(1) assms(2)] show ?thesis by simp
qed

lemma load_data_missing_file:
  assumes "entry \<in> set files_to_load" and "processed_csv fs (fst entry) = None"
  shows "relations (snd (load_data cfg sc raises now fs st)) (snd entry) = relations st (snd entry)"
proof -
  let ?s0 = "\<lparr>db = st, pending = [], rows_loaded = 0\<rparr>"
  let ?r = "load_body raises (processed_csv fs) now ?s0"
  have miss: "\<forall>e \<in> set files_to_load. snd e = snd entry \<longrightarrow> processed_csv fs (fst e) = None"
    using files_to_load_tables(4) [OF assms(1)] assms(2) by auto
  have body: "relations (db (state_of ?r)) (snd entry) = relations st (snd entry)"
    using load_body_keeps [OF miss files_to_load_tables(2) [OF assms(1)], of raises now ?s0]
    by simp
  have committed: "relations (db (commit s)) (snd entry) = relations st (snd entry)" if "?r = Done s" for s
    using load_body_Done [OF that assms(1)] assms(2) by simp
  show ?thesis
  proof (cases ?r)
    case (Done s)
    with body committed [OF Done] show ?thesis
      by (simp add: load_data_def on_exception_def split: option.splits)
  next
    case (Failed s)
    with body show ?thesis
      by (simp add: load_data_def on_exception_def split: option.splits)
  next
    case (Stuck s)
    with body show ?thesis
      by (simp add: load_data_def on_exception_def split: option.splits)
  qed
qed


lemma ready_iff:
  "ready s \<longleftrightarrow>
     (\<forall>t \<in> {''full_data'', ''country_summary'', ''daily_changes''}.
        relations (db s) t \<noteq> None \<and> t \<notin> set (pending s))
     \<and> (\<forall>d. relations (db s) ''etl_metadata'' \<noteq> Some (DataTable d))"
  by (auto simp: ready_def files_to_load_def split: option.splits relation.splits)

lemma create_table_ready: "ready s \<Longrightarrow> ready (create_table_if_not_exists t s)"
  by (auto simp: ready_iff create_table_if_not_exists_def)

lemma schema_ready:
  "\<not> raises CreateSchema \<Longrightarrow> ready s \<Longrightarrow>
   \<exists>s'. create_database_schema raises s = Done s' \<and> ready s'"
  by (simp add: create_database_schema_def create_table_ready)

lemma load_file_ready:
  assumes q: "\<forall>call. \<not> raises call" and r: "ready s" and en: "entry \<in> set files_to_load"
  shows "\<exists>s'. load_file raises processed entry s = Done s' \<and> ready s'"
proof (cases "processed (fst entry)")
  case None
  with r show ?thesis by (simp add: load_file_def)
next
  case (Some df)
  let ?t = "snd entry"
  have t: "?t \<in> {''full_data'', ''country_summary'', ''daily_changes''}"
    using en by (auto simp: files_to_load_def)
  have ex: "relations (db s) ?t \<noteq> None" and np: "?t \<notin> set (pending s)"
    using r t by (auto simp: ready_iff)
  define s1 where "s1 = s\<lparr>db := (db s)\<lparr>relations := (relations (db s))(?t := None),
                                 views := views (db s) - views_on ?t,
                                 indexes := indexes (db s) - indexes_on ?t\<rparr>\<rparr>"
  define s2 where "s2 = s1\<lparr>db := (db s1)\<lparr>relations := (relations (db s1))(?t \<mapsto> DataTable df),
                                 indexes := indexes (db s1) - indexes_on ?t\<rparr>\<rparr>"
  define s3 where "s3 = s2\<lparr>rows_loaded := rows_loaded s2 + row_count df\<rparr>"
  have 1: "drop_table raises ?t s = Done s1"
    using q ex by (auto simp: drop_table_def s1_def)
  have 2: "to_sql raises ?t df s1 = Done s2"
    using q np by (simp add: to_sql_def s1_def s2_def)
  have 3: "count_rows raises ?t s2 = Done s3"
    using q by (simp add: count_rows_def s2_def s3_def)
  have "load_file raises processed entry s = Done s3"
    by (simp add: load_file_def Some and_then_def 1 2 3)
  moreover have "ready s3"
    using r t unfolding ready_iff s3_def s2_def s1_def by auto
  ultimately show ?thesis by blast
qed

lemma load_files_ready:
  assumes q: "\<forall>call. \<not> raises call"
  shows "ready s \<Longrightarrow> set entries \<subseteq> set files_to_load \<Longrightarrow>
         \<exists>s'. load_files raises processed entries s = Done s' \<and> ready s'"
proof (induction entries arbitrary: s)
  case Nil
  then show ?case by simp
next
  case (Cons entry entries)
  from load_file_ready [OF q Cons.prems(1), of entry processed] Cons.prems(2)
  obtain s1 where 1: "load_file raises processed entry s = Done s1" and r1: "ready s1"
    by auto
  from Cons.IH [OF r1] Cons.prems(2)
  obtain s' where "load_files raises processed entries s1 = Done s'" and "ready s'"
    by auto
  with 1 show ?case by (simp add: and_then_def)
qed

lemma create_view_ready:
  "\<not> raises (CreateView v) \<Longrightarrow> ready s \<Longrightarrow>
   t \<in> {''full_data'', ''country_summary'', ''daily_changes''} \<Longrightarrow>
   \<exists>s'. create_view raises v t s = Done s' \<and> ready s'"
  by (auto simp: create_view_def ready_iff)

lemma create_index_ready:
  "\<not> raises (CreateIndex i) \<Longrightarrow> ready s \<Longrightarrow>
   t \<in> {''full_data'', ''country_summary'', ''daily_changes''} \<Longrightarrow>
   \<exists>s'. create_index raises i t s = Done s' \<and> ready s'"
  by (auto simp: create_index_def ready_iff)

lemma and_then_ready:
  assumes "\<exists>s1. r = Done s1 \<and> ready s1"
    and "\<And>s1. ready s1 \<Longrightarrow> \<exists>s'. f s1 = Done s' \<and> Q s'"
  shows "\<exists>s'. and_then r f = Done s' \<and> Q s'"
  using assms by (auto simp: and_then_def)

lemma views_ready:
  assumes q: "\<forall>call. \<not> raises call" and r: "ready s"
  shows "\<exists>s'. create_analytical_views raises s = Done s' \<and> ready s'"
  unfolding create_analytical_views_def
  by (intro and_then_ready create_view_ready r) (simp_all add: q)

lemma indexes_ready:
  assumes q: "\<forall>call. \<not> raises call" and r: "ready s"
  shows "\<exists>s'. create_indexes raises s = Done s' \<and> ready s'"
  unfolding create_indexes_def
  by (intro and_then_ready create_index_ready r) (simp_all add: q)

lemma insert_metadata_ready:
  assumes q: "\<forall>call. \<not> raises call" and r: "ready s"
  shows "\<exists>s'. insert_metadata raises now s = Done s'"
  using q r
  by (auto simp: insert_metadata_def check_if_table_exists_def ready_iff
      split: option.splits relation.splits)

lemma load_body_ready:
  assumes q: "\<forall>call. \<not> raises call" and r: "ready s"
  shows "\<exists>s'. load_body raises processed now s = Done s'"
proof -
  have "\<exists>s'. load_body raises processed now s = Done s' \<and> True"
    unfolding load_body_def
  proof (intro and_then_ready)
    show "\<exists>s1. create_database_schema raises s = Done s1 \<and> ready s1"
      using q r by (intro schema_ready) simp_all
  next
    fix s1 assume "ready s1"
    then show "\<exists>s'. (if raises GetEngine then Failed s1 else Done s1) = Done s' \<and> ready s'"
      using q by simp
  next
    fix s1 assume "ready s1"
    then show "\<exists>s'. load_files raises processed files_to_load s1 = Done s' \<and> ready s'"
      by (intro load_files_ready [OF q]) simp_all
  next
    fix s1 assume "ready s1"
    then show "\<exists>s'. create_analytical_views raises s1 = Done s' \<and> ready s'"
      by (rule views_ready [OF q])
  next
    fix s1 assume "ready s1"
    then show "\<exists>s'. create_indexes raises s1 = Done s' \<and> ready s'"
      by (rule indexes_ready [OF q])
  next
    fix s1 assume "ready s1"
    then show "\<exists>s'. insert_metadata raises now s1 = Done s' \<and> True"
      using insert_metadata_ready [OF q, of s1 now] by simp
  qed
  then show ?thesis by simp
qed

lemma load_data_quiet:
  assumes "resolve_config cfg sc = Some c" and "postgres_conn_id c = Some conn_id"
    and q: "\<forall>call. \<not> raises call"
    and r: "ready \<lparr>db = st, pending = [], rows_loaded = 0\<rparr>"
  shows "fst (load_data cfg sc raises now fs st) = Returned True"
proof -
  from load_body_ready [OF q r, of "processed_csv fs" now] obtain s where
    "load_body raises (processed_csv fs) now \<lparr>db = st, pending = [], rows_loaded = 0\<rparr> = Done s"
    by blast
  then show ?thesis using assms(1,2) q by (simp add: load_data_def)
qed


text \<open>
  Claim C4 (the code departs from it). All three processed files are there, the store
  holds an earlier generation of every table, and the store raises at \<^verbatim>\<open>df.to_sql\<close> for
  the second file. \<^verbatim>\<open>load_data\<close> rolls back \<^verbatim>\<open>conn\<close> and raises AirflowException, and
  the store is left half refreshed: \<^verbatim>\<open>full_data\<close> holds the new generation,
  \<^verbatim>\<open>country_summary\<close> is gone (it was dropped through the hook) and so are the two views
  on it, \<^verbatim>\<open>daily_changes\<close> holds the earlier generation. When the store raises at
  \<^verbatim>\<open>conn.commit()\<close>, the audit row of the load is in the store although the run fails.
\<close>

theorem load_failure_leaves_partial_refresh:
  "fst (load_data (Some ex_config) None (raises_at (ToSql ''country_summary'')) 9
         ex_processed_files ex_old_store) = Raised AirflowException
   \<and> relations (snd (load_data (Some ex_config) None (raises_at (ToSql ''country_summary'')) 9
         ex_processed_files ex_old_store)) ''full_data''
       = map_option DataTable (processed_csv ex_processed_files ''covid_data_transformed.csv'')
   \<and> relations (snd (load_data (Some ex_config) None (raises_at (ToSql ''country_summary'')) 9
         ex_processed_files ex_old_store)) ''full_data'' \<noteq> relations ex_old_store ''full_data''
   \<and> relations (snd (load_data (Some ex_config) None (raises_at (ToSql ''country_summary'')) 9
         ex_processed_files ex_old_store)) ''country_summary'' = None
   \<and> relations ex_old_store ''country_summary'' \<noteq> None
   \<and> relations (snd (load_data (Some ex_config) None (raises_at (ToSql ''country_summary'')) 9
         ex_processed_files ex_old_store)) ''daily_changes''
       = relations ex_old_store ''daily_changes''
   \<and> views (snd (load_data (Some ex_config) None (raises_at (ToSql ''country_summary'')) 9
         ex_processed_files ex_old_store)) = {''vw_global_daily''}
   \<and> fst (load_data (Some ex_config) None (raises_at CommitTx) 9
         ex_processed_files ex_old_store) = Raised AirflowException
   \<and> relations (snd (load_data (Some ex_config) None (raises_at CommitTx) 9
         ex_processed_files ex_old_store)) ''etl_metadata''
       = Some (AuditTable [\<lparr>operation = ''load'', logged_at = 9, total_rows_loaded = 15\<rparr>])"
  by code_simp

text \<open>
  Claim C10. A processed file that does not exist is skipped: whatever else happens in
  the run, the relation of its destination table is in the store as it was, neither
  dropped nor reloaded. When the configuration names a connection, no call to the store
  raises, the three destination tables are in the store and \<^verbatim>\<open>etl_metadata\<close>, if there,
  is the audit table, \<^verbatim>\<open>load_data\<close> returns True, whichever processed files are missing.
\<close>

theorem load_skips_missing_file:
  "(entry \<in> set files_to_load \<and> processed_csv fs (fst entry) = None \<longrightarrow>
      relations (snd (load_data cfg sc raises now fs st)) (snd entry) = relations st (snd entry))
   \<and> (resolve_config cfg sc = Some c \<and> postgres_conn_id c = Some conn_id
      \<and> (\<forall>call. \<not> raises call)
      \<and> relations st ''full_data'' \<noteq> None \<and> relations st ''country_summary'' \<noteq> None
      \<and> relations st ''daily_changes'' \<noteq> None
      \<and> (\<forall>d. relations st ''etl_metadata'' \<noteq> Some (DataTable d)) \<longrightarrow>
      fst (load_data cfg sc raises now fs st) = Returned True)"
proof (intro conjI impI)
  assume "entry \<in> set files_to_load \<and> processed_csv fs (fst entry) = None"
  then show "relations (snd (load_data cfg sc raises now fs st)) (snd entry)
             = relations st (snd entry)"
    using load_data_missing_file [of entry fs cfg sc raises now st] by simp
next
  assume a: "resolve_config cfg sc = Some c \<and> postgres_conn_id c = Some conn_id
      \<and> (\<forall>call. \<not> raises call)
      \<and> relations st ''full_data'' \<noteq> None \<and> relations st ''country_summary'' \<noteq> None
      \<and> relations st ''daily_changes'' \<noteq> None
      \<and> (\<forall>d. relations st ''etl_metadata'' \<noteq> Some (DataTable d))"
  then have "ready \<lparr>db = st, pending = [], rows_loaded = 0\<rparr>"
    by (simp add: ready_iff)
  with a show "fst (load_data cfg sc raises now fs st) = Returned True"
    using load_data_quiet [of cfg sc c conn_id raises _ now fs] by blast
qed

theorem load_skips_missing_file_witness:
  "processed_csv ex_two_files ''covid_daily_changes.csv'' = None
   \<and> relations (snd (load_data (Some ex_config) None never_raises 9 ex_two_files ex_old_store))
        ''daily_changes'' = relations ex_old_store ''daily_changes''
   \<and> fst (load_data (Some ex_config) None never_raises 9 ex_two_files ex_old_store)
       = Returned True"
proof -
  have e: "(''covid_daily_changes.csv'', ''daily_changes'') \<in> set files_to_load"
    by (simp add: files_to_load_def)
  have m: "processed_csv ex_two_files ''covid_daily_changes.csv'' = None"
    by (simp add: ex_two_files_def)
  have c: "resolve_config (Some ex_config) None = Some ex_config"
    "postgres_conn_id ex_config = Some ''covid_data''"
    by (simp_all add: resolve_config_def ex_config_def)
  have q: "\<forall>call. \<not> never_raises call" by (simp add: never_raises_def)
  have t: "relations ex_old_store ''full_data'' \<noteq> None"
    "relations ex_old_store ''country_summary'' \<noteq> None"
    "relations ex_old_store ''daily_changes'' \<noteq> None"
    "\<forall>d. relations ex_old_store ''etl_metadata'' \<noteq> Some (DataTable d)"
    by (simp_all add: ex_old_store_def)
  note inst = load_skips_missing_file
    [of "(''covid_daily_changes.csv'', ''daily_changes'')" ex_two_files "Some ex_config" None
      never_raises 9 ex_old_store ex_config "''covid_data''"]
  have 1: "relations (snd (load_data (Some ex_config) None never_raises 9 ex_two_files
             ex_old_store)) ''daily_changes'' = relations ex_old_store ''daily_changes''"
    using inst e m by simp
  have 2: "fst (load_data (Some ex_config) None never_raises 9 ex_two_files ex_old_store)
             = Returned True"
    using inst c q t by blast
  from m 1 2 show ?thesis by simp
qed

section \<open>Running the stages twice\<close>

text \<open>
  Claim C8. Running \<^verbatim>\<open>extract_data\<close> again with the same responses, after the
  transform stage, leaves the same raw files. Running \<^verbatim>\<open>transform_data\<close> a second
  time, at another time, on the files that the first run left gives the same result and
  the same processed files. The result and,
  when it is True, the three processed CSV files depend on the raw files only (not on the
  clock, and not on what the processed directory held before). And when \<^verbatim>\<open>load_data\<close>
  succeeds twice on the same processed files, the second time on the store that the
  first left, the three destination tables hold the same rows after the second run as
  after the first.
\<close>

theorem transform_and_load_idempotent:
  "raw_csv (snd (extract_data cfg sc rs eb
       (snd (transform_data cfg sc ta (snd (extract_data cfg sc rs ea fsz))))))
     = raw_csv (snd (extract_data cfg sc rs ea fsz))
   \<and> fst (transform_data cfg sc tb (snd (transform_data cfg sc ta fs)))
     = fst (transform_data cfg sc ta fs)
   \<and> processed_csv (snd (transform_data cfg sc tb (snd (transform_data cfg sc ta fs))))
     = processed_csv (snd (transform_data cfg sc ta fs))
   \<and> (raw_csv fs' = raw_csv fs \<longrightarrow>
        fst (transform_data cfg sc tb fs') = fst (transform_data cfg sc ta fs)
        \<and> (fst (transform_data cfg sc ta fs) \<longrightarrow>
             (\<forall>f \<in> set (map fst files_to_load).
                processed_csv (snd (transform_data cfg sc tb fs')) f
                  = processed_csv (snd (transform_data cfg sc ta fs)) f)))
   \<and> (load_data cfg sc ra na pf st = (Returned True, sta)
        \<and> load_data cfg sc rb nb pf sta = (Returned True, stb) \<longrightarrow>
        (\<forall>entry \<in> set files_to_load. relations stb (snd entry) = relations sta (snd entry)))"
proof (intro conjI impI ballI)
  show "raw_csv (snd (extract_data cfg sc rs eb
       (snd (transform_data cfg sc ta (snd (extract_data cfg sc rs ea fsz))))))
     = raw_csv (snd (extract_data cfg sc rs ea fsz))"
    by (rule extract_again) (rule transform_keeps_raw)
  show "fst (transform_data cfg sc tb (snd (transform_data cfg sc ta fs)))
     = fst (transform_data cfg sc ta fs)"
    using transform_twice [of cfg sc tb ta fs] by simp
  show "processed_csv (snd (transform_data cfg sc tb (snd (transform_data cfg sc ta fs))))
     = processed_csv (snd (transform_data cfg sc ta fs))"
    using transform_twice [of cfg sc tb ta fs] by simp
next
  assume "raw_csv fs' = raw_csv fs"
  then show "fst (transform_data cfg sc tb fs') = fst (transform_data cfg sc ta fs)"
    using transform_reads_raw_only [of fs' fs cfg sc tb ta] by simp
next
  fix f
  assume "raw_csv fs' = raw_csv fs" and "fst (transform_data cfg sc ta fs)"
    and "f \<in> set (map fst files_to_load)"
  then show "processed_csv (snd (transform_data cfg sc tb fs')) f
                  = processed_csv (snd (transform_data cfg sc ta fs)) f"
    using transform_reads_raw_only [of fs' fs cfg sc tb ta] by blast
next
  fix entry
  assume l: "load_data cfg sc ra na pf st = (Returned True, sta)
        \<and> load_data cfg sc rb nb pf sta = (Returned True, stb)"
    and en: "entry \<in> set files_to_load"
  from l have 1: "load_data cfg sc ra na pf st = (Returned True, sta)"
    and 2: "load_data cfg sc rb nb pf sta = (Returned True, stb)" by simp_all
  from load_data_success [OF 1 en] load_data_success [OF 2 en]
  show "relations stb (snd entry) = relations sta (snd entry)"
    by (cases "processed_csv pf (fst entry)") simp_all
qed

theorem transform_and_load_idempotent_witness:
  "raw_csv (snd (extract_data (Some ex_config) None ex_responses 11 ex_processed_files))
     = raw_csv ex_raw_files
   \<and> fst (transform_data (Some ex_config) None 8 ex_raw_files) = True
   \<and> fst (transform_data (Some ex_config) None 12 ex_processed_files) = True
   \<and> processed_csv (snd (transform_data (Some ex_config) None 12 ex_processed_files))
       = processed_csv ex_processed_files
   \<and> fst (load_data (Some ex_config) None never_raises 9 ex_processed_files ex_old_store)
       = Returned True
   \<and> fst (load_data (Some ex_config) None never_raises 13 ex_processed_files
        (snd (load_data (Some ex_config) None never_raises 9 ex_processed_files ex_old_store)))
       = Returned True
   \<and> list_all (\<lambda>entry.
        relations (snd (load_data (Some ex_config) None never_raises 13 ex_processed_files
          (snd (load_data (Some ex_config) None never_raises 9 ex_processed_files ex_old_store))))
          (snd entry)
        = relations (snd (load_data (Some ex_config) None never_raises 9 ex_processed_files
            ex_old_store)) (snd entry)) files_to_load"
proof -
  let ?st1 = "snd (load_data (Some ex_config) None never_raises 9 ex_processed_files ex_old_store)"
  let ?st2 = "snd (load_data (Some ex_config) None never_raises 13 ex_processed_files ?st1)"
  have t1: "fst (transform_data (Some ex_config) None 8 ex_raw_files) = True"
    by code_simp
  note inst = transform_and_load_idempotent
    [where cfg = "Some ex_config" and sc = None and tb = 12 and ta = 8 and fs = ex_raw_files
      and fs' = ex_raw_files and ra = never_raises and na = 9 and pf = ex_processed_files
      and st = ex_old_store and sta = ?st1 and rb = never_raises and nb = 13 and stb = ?st2
      and rs = ex_responses and ea = 7 and eb = 11 and fsz = no_files]
  have t2: "fst (transform_data (Some ex_config) None 12 ex_processed_files) = True"
    using inst t1 unfolding ex_processed_files_def by simp
  have p: "processed_csv (snd (transform_data (Some ex_config) None 12 ex_processed_files))
       = processed_csv ex_processed_files"
    using inst unfolding ex_processed_files_def by simp
  have x: "raw_csv (snd (extract_data (Some ex_config) None ex_responses 11 ex_processed_files))
     = raw_csv ex_raw_files"
    using inst unfolding ex_processed_files_def ex_raw_files_def by blast
  have l1: "fst (load_data (Some ex_config) None never_raises 9 ex_processed_files ex_old_store)
       = Returned True"
    by code_simp
  have l2: "fst (load_data (Some ex_config) None never_raises 13 ex_processed_files ?st1)
       = Returned True"
    by code_simp
  have "load_data (Some ex_config) None never_raises 9 ex_processed_files ex_old_store
          = (Returned True, ?st1)"
    "load_data (Some ex_config) None never_raises 13 ex_processed_files ?st1
          = (Returned True, ?st2)"
    using l1 l2 by (simp_all add: prod_eq_iff)
  with inst have "\<forall>entry \<in> set files_to_load.
      relations ?st2 (snd entry) = relations ?st1 (snd entry)"
    by blast
  with x t1 t2 p l1 l2 show ?thesis by (simp add: list_all_iff)
qed

end
